theory Spec2Isabelle
  imports Complex_Main "HOL-Library.Word"
begin

section \<open>Data model\<close>

text \<open>
  The floating type \<open>fl\<close> of the program is read as \<open>real\<close>: every value of the type
  is taken to be an ordinary (non-NaN) number, so that comparisons are those of the reals.
  Arithmetic on the type rounds: the one sum of two energies that the code under study
  computes is a parameter of the model (\<open>plus_fl\<close>), not the sum of the reals.
\<close>

type_synonym fl = real

text \<open>
  \<open>non_cache\<close>: only the member \<open>slope\<close> is touched by the code under study; the other
  members (grid dimensions, the precalculated terms) live in the record's extension.
\<close>

record non_cache =
  slope :: fl

text \<open>\<open>output_type\<close>: a pose with its conformation \<open>c\<close>, energy \<open>e\<close> and coordinates.\<close>

record ('c, 'v) output_type =
  c :: 'c
  e :: fl
  coords :: 'v

text \<open>
  The variables that \<open>refine_structure\<close> hands to the minimizer by reference: the model
  \<open>m\<close>, the evaluator \<open>nc\<close>, the pose \<open>out\<close> and the gradient buffer \<open>g\<close>.
\<close>

record ('m, 'z, 'c, 'v, 'g) vars =
  m :: 'm
  nc :: "'z non_cache_scheme"
  out :: "('c, 'v) output_type"
  g :: 'g

text \<open>
  The collaborators of \<open>refine_structure\<close> that are declared in other files, taken as
  parameters: the quasi-Newton minimizer (free to change every variable it is handed,
  \<open>nc\<close> included), \<open>model::set\<close>, \<open>non_cache::within\<close> (here \<open>within_box\<close>),
  \<open>model::get_heavy_atom_movable_coords\<close>, the constructor of the zero \<open>change\<close> and the
  constant \<open>max_fl\<close>.
\<close>

record ('m, 'z, 'c, 'v, 'g) collab =
  quasi_newton_par :: "nat \<Rightarrow> ('m, 'z, 'c, 'v, 'g) vars \<Rightarrow> ('m, 'z, 'c, 'v, 'g) vars"
  set_conf :: "'m \<Rightarrow> 'c \<Rightarrow> 'm"
  within_box :: "'z non_cache_scheme \<Rightarrow> 'm \<Rightarrow> bool"
  get_heavy_atom_movable_coords :: "'m \<Rightarrow> 'v"
  zero_change :: "'m \<Rightarrow> 'g"
  max_fl :: fl

section \<open>Annealed local refinement\<close>

text \<open>
  One pass of the body of \<open>VINA_FOR(p, 5)\<close>: the slope is set, the minimizer runs, the
  model is set to the conformation the minimizer returned.
\<close>

definition set_slope :: "('m, 'z, 'c, 'v, 'g) vars \<Rightarrow> fl \<Rightarrow> ('m, 'z, 'c, 'v, 'g) vars" where
  "set_slope s x = s\<lparr>nc := (nc s)\<lparr>slope := x\<rparr>\<rparr>"

definition run_minimizer ::
  "('m, 'z, 'c, 'v, 'g) collab \<Rightarrow> nat \<Rightarrow> ('m, 'z, 'c, 'v, 'g) vars \<Rightarrow> ('m, 'z, 'c, 'v, 'g) vars" where
  "run_minimizer K max_steps s1 =
     (let s2 = quasi_newton_par K max_steps s1
      in s2\<lparr>m := set_conf K (m s2) (c (out s2))\<rparr>)"

text \<open>
  The loop \<open>VINA_FOR(p, 5)\<close>, started at \<open>p\<close>. Beside the variables it returns the list of
  its attempts, oldest first: for each attempt the variables as the minimizer received them
  and the variables after \<open>m.set(out.c)\<close>. The list is an observation of the run and is
  read by nothing in the loop.
\<close>

function refine_loop ::
  "('m, 'z, 'c, 'v, 'g) collab \<Rightarrow> nat \<Rightarrow> nat \<Rightarrow> ('m, 'z, 'c, 'v, 'g) vars \<Rightarrow>
   ('m, 'z, 'c, 'v, 'g) vars \<times> (('m, 'z, 'c, 'v, 'g) vars \<times> ('m, 'z, 'c, 'v, 'g) vars) list" where
  "refine_loop K max_steps p s =
     (if p < 5 then
        (let s1 = set_slope s (100 * 10 ^ (2 * p));
             s3 = run_minimizer K max_steps s1
         in if within_box K (nc s3) (m s3) then (s3, [(s1, s3)])
            else (case refine_loop K max_steps (p + 1) s3 of
                    (s', tr) \<Rightarrow> (s', (s1, s3) # tr)))
      else (s, []))"
  by pat_completeness auto
termination
  by (relation "measure (\<lambda>(K, max_steps, p, s). 5 - p)") auto

declare refine_loop.simps [simp del]

text \<open>
  \<open>refine_structure(m, prec, nc, out, cap, max_steps)\<close>. The result holds the variables
  after the call and the attempts of the loop.
\<close>

definition refine_structure ::
  "('m, 'z, 'c, 'v, 'g) collab \<Rightarrow> 'm \<Rightarrow> 'z non_cache_scheme \<Rightarrow> ('c, 'v) output_type \<Rightarrow> nat \<Rightarrow>
   ('m, 'z, 'c, 'v, 'g) vars \<times> (('m, 'z, 'c, 'v, 'g) vars \<times> ('m, 'z, 'c, 'v, 'g) vars) list" where
  "refine_structure K m0 nc0 out0 max_steps =
     (let g0 = zero_change K m0;
          slope_orig = slope nc0;
          (s, tr) = refine_loop K max_steps 0 \<lparr>m = m0, nc = nc0, out = out0, g = g0\<rparr>;
          out1 = (out s)\<lparr>coords := get_heavy_atom_movable_coords K (m s)\<rparr>;
          out2 = (if \<not> within_box K (nc s) (m s) then out1\<lparr>e := max_fl K\<rparr> else out1)
      in (s\<lparr>out := out2, nc := (nc s)\<lparr>slope := slope_orig\<rparr>\<rparr>, tr))"

section \<open>Result pool\<close>

text \<open>
  Modelled from the spec: \<open>add_to_output_container\<close> is declared in coords.h, which is not
  among the sources. The spec: a candidate is accepted into the pool only if its RMSD to
  every pose already accepted is at least \<open>min_rmsd\<close>, otherwise it is discarded; the pool
  is capped at a capacity. What happens to a candidate that meets a full pool the spec
  leaves open; here it is dropped, and \<open>remove_redundant\<close> never gets there. \<open>rmsd\<close> is the
  distance between two sets of coordinates.
\<close>

definition add_to_output_container ::
  "('v \<Rightarrow> 'v \<Rightarrow> fl) \<Rightarrow> ('c, 'v) output_type list \<Rightarrow> ('c, 'v) output_type \<Rightarrow> fl \<Rightarrow> nat \<Rightarrow>
   ('c, 'v) output_type list" where
  "add_to_output_container rmsd pool t min_rmsd max_size =
     (if \<forall>a \<in> set pool. min_rmsd \<le> rmsd (coords a) (coords t)
      then (if length pool < max_size then pool @ [t] else pool)
      else pool)"

text \<open>\<open>remove_redundant(in, min_rmsd)\<close>: the candidates are added in index order.\<close>

definition remove_redundant ::
  "('v \<Rightarrow> 'v \<Rightarrow> fl) \<Rightarrow> ('c, 'v) output_type list \<Rightarrow> fl \<Rightarrow> ('c, 'v) output_type list" where
  "remove_redundant rmsd inp min_rmsd =
     foldl (\<lambda>tmp t. add_to_output_container rmsd tmp t min_rmsd (length inp)) [] inp"

section \<open>Selection for output\<close>

datatype log_line = Mode_line nat fl fl fl | Warning_no_conformation

text \<open>The variables of the selection loop of \<open>do_search\<close>.\<close>

record selection =
  how_many :: nat
  remarks :: "(fl \<times> fl \<times> fl) list"
  log_lines :: "log_line list"

text \<open>
  The loop \<open>VINA_FOR_IN(i, out_cont)\<close> of \<open>do_search\<close>, started at index \<open>i\<close>.
  Two collaborators are parameters: \<open>not_max\<close>, the test of an energy against the
  sentinel, which is declared outside the sources, and \<open>bounds\<close>, which gives for a
  conformation the two RMSD bounds to the reference model. \<open>plus_fl\<close> is the sum of the
  floating type, rounded as the machine rounds it.
\<close>

function select_loop ::
  "(fl \<Rightarrow> bool) \<Rightarrow> (fl \<Rightarrow> fl \<Rightarrow> fl) \<Rightarrow> ('c \<Rightarrow> fl \<times> fl) \<Rightarrow> ('c, 'v) output_type list \<Rightarrow> nat \<Rightarrow>
   fl \<Rightarrow> nat \<Rightarrow> selection \<Rightarrow> selection" where
  "select_loop not_max plus_fl bounds out_cont num_modes energy_range i s =
     (if i < length out_cont then
        (if how_many s \<ge> num_modes \<or> \<not> not_max (e (out_cont ! i))
            \<or> e (out_cont ! i) > plus_fl (e (out_cont ! 0)) energy_range
         then s
         else
           (let lb = fst (bounds (c (out_cont ! i)));
                ub = snd (bounds (c (out_cont ! i)))
            in select_loop not_max plus_fl bounds out_cont num_modes energy_range (i + 1)
                 \<lparr>how_many = how_many s + 1,
                  remarks = remarks s @ [(e (out_cont ! i), lb, ub)],
                  log_lines = log_lines s @ [Mode_line (i + 1) (e (out_cont ! i)) lb ub]\<rparr>))
      else s)"
  by pat_completeness auto
termination
  by (relation "measure (\<lambda>(nm, pl, b, out_cont, n, r, i, s). length out_cont - i)") auto

declare select_loop.simps [simp del]

datatype error = Internal_error | File_error

text \<open>
  \<open>write_all_output\<close>: the models written, each with its number and remark.
  \<open>VINA_CHECK\<close> raises an internal error; \<open>writable\<close> tells whether the output file can
  be opened.
\<close>

definition write_all_output ::
  "bool \<Rightarrow> ('c, 'v) output_type list \<Rightarrow> nat \<Rightarrow> (fl \<times> fl \<times> fl) list \<Rightarrow>
   error + (nat \<times> 'c \<times> (fl \<times> fl \<times> fl)) list" where
  "write_all_output writable out_cont how_many_arg rmks =
     (let n = (if length out_cont < how_many_arg then length out_cont else how_many_arg)
      in if \<not> n \<le> length rmks then Inl Internal_error
         else if \<not> writable then Inl File_error
         else Inr (map (\<lambda>i. (i + 1, c (out_cont ! i), rmks ! i)) [0..<n]))"

text \<open>
  The end of the search mode of \<open>do_search\<close>, from \<open>sz how_many = 0\<close> on: selection,
  writing, and the warning when nothing was selected.
\<close>

definition select_output ::
  "(fl \<Rightarrow> bool) \<Rightarrow> (fl \<Rightarrow> fl \<Rightarrow> fl) \<Rightarrow> ('c \<Rightarrow> fl \<times> fl) \<Rightarrow> bool \<Rightarrow> ('c, 'v) output_type list \<Rightarrow>
   nat \<Rightarrow> fl \<Rightarrow> error + (nat \<times> 'c \<times> (fl \<times> fl \<times> fl)) list \<times> log_line list" where
  "select_output not_max plus_fl bounds writable out_cont num_modes energy_range =
     (let s = select_loop not_max plus_fl bounds out_cont num_modes energy_range 0
                \<lparr>how_many = 0, remarks = [], log_lines = []\<rparr>
      in case write_all_output writable out_cont (how_many s) (remarks s) of
           Inl err \<Rightarrow> Inl err
         | Inr written \<Rightarrow>
             Inr (written,
                  log_lines s @ (if how_many s < 1 then [Warning_no_conformation] else [])))"

section \<open>The job file as an input stream\<close>

text \<open>
  \<open>std::ifstream\<close> over the bytes of the job file: the read position and the two state
  bits that the schedulers test.
\<close>

record ifstream =
  content :: string
  pos :: nat
  eofbit :: bool
  failbit :: bool

text \<open>
  \<open>std::ifstream infile(job_file.c_str())\<close>: \<open>Some bytes\<close> is a file that opens and
  holds \<open>bytes\<close>, \<open>None\<close> a file that cannot be opened, which leaves the stream with
  \<open>failbit\<close> set. Neither the batch loop nor the governor tests the open.
\<close>

definition open_file :: "string option \<Rightarrow> ifstream" where
  "open_file file =
     (case file of
        None \<Rightarrow> \<lparr>content = [], pos = 0, eofbit = False, failbit = True\<rparr>
      | Some bytes \<Rightarrow> \<lparr>content = bytes, pos = 0, eofbit = False, failbit = False\<rparr>)"

definition newline :: char where
  "newline = CHR 0x0A"

text \<open>
  \<open>std::getline(infile, path)\<close>: characters are taken up to the next newline, which is
  consumed and not stored. Running into the end of the file sets \<open>eofbit\<close>, and
  \<open>failbit\<close> too when nothing at all was extracted. On a stream that is not good nothing
  is read and \<open>failbit\<close> is set.
\<close>

definition getline :: "ifstream \<Rightarrow> ifstream \<times> string" where
  "getline f =
     (if eofbit f \<or> failbit f then (f\<lparr>failbit := True\<rparr>, [])
      else
        (let rest = drop (pos f) (content f);
             line = takeWhile (\<lambda>x. x \<noteq> newline) rest
         in if length line < length rest
            then (f\<lparr>pos := pos f + length line + 1\<rparr>, line)
            else (f\<lparr>pos := pos f + length line, eofbit := True, failbit := (line = [])\<rparr>, line)))"

text \<open>\<open>infile.tellg()\<close>: the read position, or \<open>-1\<close> when \<open>fail()\<close> holds.\<close>

definition tellg :: "ifstream \<Rightarrow> int" where
  "tellg f = (if failbit f then - 1 else int (pos f))"

text \<open>\<open>infile.seekg(off)\<close>: clears \<open>eofbit\<close>; on a failed stream, or to a negative offset, nothing moves.\<close>

definition seekg :: "ifstream \<Rightarrow> int \<Rightarrow> ifstream" where
  "seekg f off =
     (if failbit f then f\<lparr>eofbit := False\<rparr>
      else if off < 0 then f\<lparr>eofbit := False, failbit := True\<rparr>
      else f\<lparr>pos := nat off, eofbit := False\<rparr>)"

section \<open>Fork-based fan-out scheduler\<close>

text \<open>
  The state of the process that runs the batch loop of \<open>main\<close>: the job file, the queue
  \<open>pid_queue\<close> and the counter \<open>i\<close> (here \<open>ligand_i\<close>). Three more fields observe the
  run and are read by nothing in the loop: \<open>forks\<close> counts the calls of \<open>fork\<close>,
  \<open>children\<close> lists the children of this process that no \<open>wait\<close> has collected yet,
  \<open>sizes\<close> records the length of the queue after every \<open>push\<close> and \<open>pop\<close>, and
  \<open>waits\<close> records for every \<open>wait\<close> the child it collected and the identifier that
  was at the front of the queue.
\<close>

record sched =
  infile :: ifstream
  pid_queue :: "int list"
  ligand_i :: int
  forks :: nat
  children :: "int list"
  sizes :: "nat list"
  waits :: "(int \<times> int) list"

definition init_sched :: "string option \<Rightarrow> sched" where
  "init_sched file =
     \<lparr>infile = open_file file, pid_queue = [], ligand_i = 0, forks = 0,
      children = [], sizes = [], waits = []\<rparr>"

text \<open>\<open>pid_queue.push(pid)\<close>, after a \<open>fork\<close> that returned \<open>pid > 0\<close>.\<close>

definition push_pid :: "int \<Rightarrow> sched \<Rightarrow> sched" where
  "push_pid pid s =
     s\<lparr>pid_queue := pid_queue s @ [pid], children := children s @ [pid],
       sizes := sizes s @ [length (pid_queue s) + 1]\<rparr>"

text \<open>
  \<open>wait(&(pid_queue.front())); pid_queue.pop();\<close>
  The argument of \<open>wait\<close> is the place where the exit status is stored, so the call hands
  no identifier to the system: \<open>wait\<close> suspends the caller until one of its children has
  terminated, whichever it is, and stores that child's status over the front element, which
  \<open>pop\<close> then discards. Which child terminates first is the environment's choice:
  \<open>first_exit cs\<close> is its position in the list \<open>cs\<close> of the children not yet collected.
  Without children \<open>wait\<close> returns at once and stores nothing.
\<close>

definition wait_pop :: "(int list \<Rightarrow> nat) \<Rightarrow> sched \<Rightarrow> sched" where
  "wait_pop first_exit s =
     (case pid_queue s of
        [] \<Rightarrow> s
      | front # rest \<Rightarrow>
          (if children s = []
           then s\<lparr>pid_queue := rest, sizes := sizes s @ [length rest]\<rparr>
           else
             (let ch = children s ! (first_exit (children s) mod length (children s))
              in s\<lparr>pid_queue := rest, children := remove1 ch (children s),
                   sizes := sizes s @ [length rest],
                   waits := waits s @ [(ch, front)]\<rparr>)))"

text \<open>
  \<open>pid_queue.size() >= maxNbrOfFork\<close>: the left side is a \<open>size_t\<close>, so the \<open>int\<close> on the
  right is converted to \<open>size_t\<close> (64 bits) and the comparison is unsigned.
\<close>

definition size_ge :: "nat \<Rightarrow> 32 word \<Rightarrow> bool" where
  "size_ge n k = ((scast k :: 64 word) \<le> (of_nat n :: 64 word))"

text \<open>The loop that empties the queue once the job file is exhausted.\<close>

function drain :: "(int list \<Rightarrow> nat) \<Rightarrow> bool \<Rightarrow> sched \<Rightarrow> sched" where
  "drain first_exit use_fork_parallelism s =
     (if use_fork_parallelism \<and> length (pid_queue s) \<noteq> 0
      then drain first_exit use_fork_parallelism (wait_pop first_exit s)
      else s)"
  by pat_completeness auto
termination
  by (relation "measure (\<lambda>(first_exit, u, s). length (pid_queue s))")
     (auto simp: wait_pop_def Let_def split: list.splits)

declare drain.simps [simp del]

datatype outcome = End_of_file | Fork_failed | Child_exit

text \<open>
  The \<open>while(true)\<close> loop of the batch mode. \<open>fork_ret n\<close> is what the \<open>n\<close>-th call of
  \<open>fork\<close> returns in this process (0 in the child, the child's identifier in the parent,
  negative on failure); \<open>job_ok path\<close> tells whether the docking of the ligand at \<open>path\<close>
  ran through without an exception. The child runs its one job and leaves the loop.
\<close>

function fork_loop ::
  "(nat \<Rightarrow> int) \<Rightarrow> (int list \<Rightarrow> nat) \<Rightarrow> (string \<Rightarrow> bool) \<Rightarrow> bool \<Rightarrow> 32 word \<Rightarrow> sched \<Rightarrow>
   outcome \<times> sched" where
  "fork_loop fork_ret first_exit job_ok use_fork_parallelism maxNbrOfFork s =
     (case getline (infile s) of
        (f, path) \<Rightarrow>
          if eofbit f \<or> path = []
          then (End_of_file, drain first_exit use_fork_parallelism (s\<lparr>infile := f\<rparr>))
          else if use_fork_parallelism
          then
            (let pid = fork_ret (forks s);
                 s1 = s\<lparr>infile := f, forks := forks s + 1\<rparr>
             in if pid = 0 then (Child_exit, s1)
                else if pid > 0
                then
                  (let s2 = push_pid pid s1;
                       s3 = (if size_ge (length (pid_queue s2)) maxNbrOfFork
                             then wait_pop first_exit s2 else s2)
                   in fork_loop fork_ret first_exit job_ok use_fork_parallelism maxNbrOfFork s3)
                else (Fork_failed, s1))
          else
            fork_loop fork_ret first_exit job_ok use_fork_parallelism maxNbrOfFork
              (s\<lparr>infile := f,
                 ligand_i := (if job_ok path then ligand_i s + 1 else ligand_i s)\<rparr>))"
  by pat_completeness auto
termination
  apply (relation "measure (\<lambda>(fr, fe, j, u, n, s). length (content (infile s)) - pos (infile s))")
    apply (auto simp: getline_def Let_def push_pid_def wait_pop_def split: if_splits list.splits)
  done

declare fork_loop.simps [simp del]

section \<open>Coordinator and worker of the message-passing farm\<close>

text \<open>\<open>run_param\<close> of vinampi.h: the three integers of one assignment.\<close>

record run_param =
  random_seed :: int
  seek_offset :: int
  ligand_nbr :: int

text \<open>The conversion \<open>(int)\<close> of a stream offset: the low 32 bits, read as signed.\<close>

definition to_int :: "int \<Rightarrow> int" where
  "to_int k = sint (word_of_int k :: 32 word)"

text \<open>\<open>path.find_first_not_of(" \t\n\v\f\r") == std::string::npos\<close>\<close>

definition blank :: "string \<Rightarrow> bool" where
  "blank path = (\<forall>x \<in> set path. x \<in> {CHR '' '', CHR 0x09, CHR 0x0A, CHR 0x0B, CHR 0x0C, CHR 0x0D})"

text \<open>
  The data-bound \<open>while(true)\<close> loop of the governor. \<open>random_int n\<close> is the \<open>n\<close>-th
  number drawn from the generator and \<open>source n\<close> the rank whose request the \<open>n\<close>-th
  \<open>MPI_Recv\<close> from \<open>MPI_ANY_SOURCE\<close> delivers. The result lists the messages sent, each
  with its destination, oldest first.
\<close>

function governor_loop ::
  "(nat \<Rightarrow> int) \<Rightarrow> (nat \<Rightarrow> nat) \<Rightarrow> ifstream \<Rightarrow> int \<Rightarrow> nat \<Rightarrow> (nat \<times> run_param) list \<Rightarrow>
   (nat \<times> run_param) list \<times> ifstream \<times> int" where
  "governor_loop random_int source f count n sent =
     (let gseed = random_int (n + 1);
          offset = to_int (tellg f);
          nbr = count;
          worker_idx = source n;
          sent' = sent @ [(worker_idx, \<lparr>random_seed = gseed, seek_offset = offset, ligand_nbr = nbr\<rparr>)]
      in case getline f of
           (f', path) \<Rightarrow>
             if eofbit f' \<or> path = [] \<or> blank path then (sent', f', count + 1)
             else governor_loop random_int source f' (count + 1) (n + 1) sent')"
  by pat_completeness auto
termination
  apply (relation "measure (\<lambda>(r, src, f, k, n, sent). length (content f) - pos f)")
    apply (auto simp: getline_def Let_def split: if_splits)
  done

declare governor_loop.simps [simp del]

text \<open>
  The governor: the loop above, then one end signal to every rank \<open>j = 1 .. world_size - 1\<close>.
  Of \<open>end_code\<close> only the element 1 is assigned; \<open>u0\<close> and \<open>u2\<close> stand for whatever the
  other two hold.
\<close>

definition governor ::
  "(nat \<Rightarrow> int) \<Rightarrow> (nat \<Rightarrow> nat) \<Rightarrow> int \<Rightarrow> int \<Rightarrow> nat \<Rightarrow> string option \<Rightarrow>
   (nat \<times> run_param) list" where
  "governor random_int source u0 u2 world_size file =
     (case governor_loop random_int source (open_file file) 0 0 [] of
        (sent, f, count) \<Rightarrow>
          sent @ map (\<lambda>j. (j, \<lparr>random_seed = u0, seek_offset = - 1, ligand_nbr = u2\<rparr>)) [1..<world_size])"

text \<open>
  The \<open>while(true)\<close> loop of a worker, over the messages it receives from the governor in
  their order: the end signal (\<open>recv[1] == -1\<close>) leaves the loop; any other message makes
  the worker seek its own handle of the job file to the offset and read one line, the path
  of the ligand it then docks (an exception of the docking is caught and the loop goes on).
  The result lists the paths read and tells whether the loop was left; with no message
  left the worker stays blocked in \<open>MPI_Recv\<close>.
\<close>

fun worker_loop :: "ifstream \<Rightarrow> run_param list \<Rightarrow> string list \<Rightarrow> string list \<times> bool" where
  "worker_loop f [] paths = (paths, False)"
| "worker_loop f (recv # msgs) paths =
     (if seek_offset recv = - 1 then (paths, True)
      else (case getline (seekg f (seek_offset recv)) of
              (f', path) \<Rightarrow> worker_loop f' msgs (paths @ [path])))"

section \<open>Mode dispatch of main_procedure and do_search\<close>

text \<open>The evaluator objects that \<open>main_procedure\<close> constructs and hands on.\<close>

datatype evaluator = Cache_c | Non_cache_nc | Non_cache_nc_widened | Naive_non_cache_nnc

text \<open>The calls on the collaborators, as far as the choice of evaluator goes.\<close>

datatype call =
    Do_randomization
  | Populate evaluator
  | Eval_adjusted evaluator
  | Refine_structure evaluator
  | Parallel_mc evaluator evaluator
  | Write_all_output

text \<open>
  \<open>do_search\<close>, reduced to the calls it makes in each of its three modes; \<open>ig\<close>,
  \<open>ig_widened\<close> and \<open>nc\<close> are its parameters of these names.
\<close>

definition do_search :: "evaluator \<Rightarrow> evaluator \<Rightarrow> evaluator \<Rightarrow> bool \<Rightarrow> bool \<Rightarrow> call list" where
  "do_search ig ig_widened nc_arg score_only local_only =
     (if score_only then [Eval_adjusted Naive_non_cache_nnc]
      else if local_only then [Refine_structure nc_arg, Eval_adjusted nc_arg, Write_all_output]
      else [Parallel_mc ig ig_widened, Refine_structure nc_arg, Eval_adjusted nc_arg, Write_all_output])"

definition main_procedure :: "bool \<Rightarrow> bool \<Rightarrow> bool \<Rightarrow> bool \<Rightarrow> call list" where
  "main_procedure score_only local_only randomize_only no_cache =
     (if randomize_only then [Do_randomization]
      else if no_cache
      then do_search Non_cache_nc Non_cache_nc_widened Non_cache_nc score_only local_only
      else
        (let cache_needed = \<not> (score_only \<or> randomize_only \<or> local_only)
         in (if cache_needed then [Populate Cache_c] else [])
            @ do_search Cache_c Cache_c Non_cache_nc score_only local_only))"

section \<open>Example inputs\<close>

text \<open>
  A small instance of the collaborators, used to run the definitions: the model is a
  position on a line, the box is everything up to 7, and every call of the minimizer moves
  the conformation one step towards the box.
\<close>

definition example_collab :: "(int, unit, int, int, unit) collab" where
  "example_collab =
     \<lparr>quasi_newton_par = (\<lambda>n s. s\<lparr>out := (out s)\<lparr>c := c (out s) - 1\<rparr>\<rparr>),
      set_conf = (\<lambda>mo x. x), within_box = (\<lambda>n mo. mo \<le> 7),
      get_heavy_atom_movable_coords = (\<lambda>mo. mo), zero_change = (\<lambda>mo. ()), max_fl = 1000\<rparr>"

text \<open>A pool of four poses in the order the selection meets them; 1000 is the sentinel.\<close>

definition example_pool :: "(int, int) output_type list" where
  "example_pool =
     [\<lparr>c = 1, e = - 5, coords = 0\<rparr>, \<lparr>c = 2, e = - 4, coords = 3\<rparr>,
      \<lparr>c = 3, e = 1000, coords = 9\<rparr>, \<lparr>c = 4, e = - 3, coords = 6\<rparr>]"

text \<open>For that pool: the test against the sentinel 1000, and constant RMSD bounds.\<close>

definition example_not_max :: "fl \<Rightarrow> bool" where
  "example_not_max x = (x \<noteq> 1000)"

definition example_bounds :: "int \<Rightarrow> fl \<times> fl" where
  "example_bounds x = (0, 1)"

text \<open>A pool whose only pose carries the sentinel.\<close>

definition example_rejected_pool :: "(int, int) output_type list" where
  "example_rejected_pool = [\<lparr>c = 3, e = 1000, coords = 9\<rparr>]"

text \<open>The sums of the examples are exact.\<close>

definition example_plus_fl :: "fl \<Rightarrow> fl \<Rightarrow> fl" where
  "example_plus_fl a b = a + b"

text \<open>
  Three candidates in ascending energy, the second at the place of the first, and a
  distance on their (one-dimensional) coordinates.
\<close>

definition example_candidates :: "(int, int) output_type list" where
  "example_candidates =
     [\<lparr>c = 1, e = - 5, coords = 0\<rparr>, \<lparr>c = 2, e = - 4, coords = 0\<rparr>, \<lparr>c = 3, e = - 3, coords = 5\<rparr>]"

definition example_rmsd :: "int \<Rightarrow> int \<Rightarrow> fl" where
  "example_rmsd a b = real_of_int \<bar>a - b\<bar>"

text \<open>The job file that holds the given lines, each ended by a newline.\<close>

definition job_file :: "string list \<Rightarrow> string" where
  "job_file ls = concat (map (\<lambda>l. l @ [newline]) ls)"

text \<open>A job file of three ligand lines, each ended by a newline.\<close>

definition example_jobs :: string where
  "example_jobs = job_file [''a'', ''b'', ''c'']"

text \<open>
  An environment for the fork-based scheduler: the children get the identifiers 101, 102,
  and so on; of the children not yet collected the youngest terminates first; every job
  runs through.
\<close>

definition example_fork_ret :: "nat \<Rightarrow> int" where
  "example_fork_ret n = 101 + int n"

definition youngest_first :: "int list \<Rightarrow> nat" where
  "youngest_first cs = length cs - 1"

definition example_job_ok :: "string \<Rightarrow> bool" where
  "example_job_ok path = True"

text \<open>
  An environment for the governor: the numbers drawn are 7, 8, 9 and so on, and every
  request comes from rank 1.
\<close>

definition example_random_int :: "nat \<Rightarrow> int" where
  "example_random_int n = 7 + int n"

definition example_source :: "nat \<Rightarrow> nat" where
  "example_source n = 1"

section \<open>Properties of the refinement\<close>

text \<open>
  What the loop does, attempt by attempt, from any starting index \<open>p\<close>: the list of
  attempts determines the slopes, the states handed on and the point where the loop stops.
\<close>

lemma refine_loop_trace:
  "refine_loop K ms p s = (s', tr) \<Longrightarrow>
     length tr \<le> 5 - p \<and> (p < 5 \<longrightarrow> tr \<noteq> [])
   \<and> (\<forall>i<length tr. slope (nc (fst (tr ! i))) = 100 * 10 ^ (2 * (p + i)))
   \<and> (\<forall>i<length tr. snd (tr ! i) = run_minimizer K ms (fst (tr ! i)))
   \<and> (\<forall>i<length tr. fst (tr ! i) = set_slope (if i = 0 then s else snd (tr ! (i - 1))) (100 * 10 ^ (2 * (p + i))))
   \<and> (\<forall>i. Suc i < length tr \<longrightarrow> \<not> within_box K (nc (snd (tr ! i))) (m (snd (tr ! i))))
   \<and> (length tr < 5 - p \<longrightarrow> within_box K (nc s') (m s'))
   \<and> s' = (if tr = [] then s else snd (last tr))"
proof (induction K ms p s arbitrary: s' tr rule: refine_loop.induct)
  case (1 K ms p s)
  show ?case
  proof (cases "p < 5")
    case False
    with "1.prems" show ?thesis by (simp add: refine_loop.simps)
  next
    case True
    define s1 where "s1 = set_slope s (100 * 10 ^ (2 * p))"
    define s3 where "s3 = run_minimizer K ms s1"
    have sl: "slope (nc s1) = 100 * 10 ^ (2 * p)" by (simp add: s1_def set_slope_def)
    show ?thesis
    proof (cases "within_box K (nc s3) (m s3)")
      case w: True
      with True "1.prems" have "s' = s3" "tr = [(s1, s3)]"
        by (auto simp add: refine_loop.simps [of K ms p s] Let_def s1_def s3_def)
      with True w sl show ?thesis by (simp add: s1_def s3_def)
    next
      case w: False
      obtain s'' tr' where rec: "refine_loop K ms (p + 1) s3 = (s'', tr')"
        by (cases "refine_loop K ms (p + 1) s3")
      with True w "1.prems" have eq: "s' = s''" "tr = (s1, s3) # tr'"
        by (auto simp add: refine_loop.simps [of K ms p s] Let_def s1_def s3_def)
      have IH: "length tr' \<le> 5 - (p + 1) \<and> (p + 1 < 5 \<longrightarrow> tr' \<noteq> [])
   \<and> (\<forall>i<length tr'. slope (nc (fst (tr' ! i))) = 100 * 10 ^ (2 * (p + 1 + i)))
   \<and> (\<forall>i<length tr'. snd (tr' ! i) = run_minimizer K ms (fst (tr' ! i)))
   \<and> (\<forall>i<length tr'. fst (tr' ! i) = set_slope (if i = 0 then s3 else snd (tr' ! (i - 1))) (100 * 10 ^ (2 * (p + 1 + i))))
   \<and> (\<forall>i. Suc i < length tr' \<longrightarrow> \<not> within_box K (nc (snd (tr' ! i))) (m (snd (tr' ! i))))
   \<and> (length tr' < 5 - (p + 1) \<longrightarrow> within_box K (nc s'') (m s''))
   \<and> s'' = (if tr' = [] then s3 else snd (last tr'))"
        using "1.IH" [OF True s1_def s3_def w rec] .
      from IH have ih_len: "length tr' \<le> 5 - (p + 1)"
        and ih_slope: "\<And>i. i < length tr' \<Longrightarrow> slope (nc (fst (tr' ! i))) = 100 * 10 ^ (2 * (p + 1 + i))"
        and ih_run: "\<And>i. i < length tr' \<Longrightarrow> snd (tr' ! i) = run_minimizer K ms (fst (tr' ! i))"
        and ih_chain: "\<And>i. i < length tr' \<Longrightarrow> fst (tr' ! i) = set_slope (if i = 0 then s3 else snd (tr' ! (i - 1))) (100 * 10 ^ (2 * (p + 1 + i)))"
        and ih_fail: "\<And>i. Suc i < length tr' \<Longrightarrow> \<not> within_box K (nc (snd (tr' ! i))) (m (snd (tr' ! i)))"
        and ih_stop: "length tr' < 5 - (p + 1) \<Longrightarrow> within_box K (nc s'') (m s'')"
        and ih_last: "s'' = (if tr' = [] then s3 else snd (last tr'))"
        by blast+
      have a: "length tr \<le> 5 - p" using ih_len True eq by simp
      have b: "\<forall>i<length tr. slope (nc (fst (tr ! i))) = 100 * 10 ^ (2 * (p + i))"
      proof (intro allI impI)
        fix i assume "i < length tr"
        then show "slope (nc (fst (tr ! i))) = 100 * 10 ^ (2 * (p + i))"
          using sl ih_slope [of "i - 1"] eq by (cases i) simp_all
      qed
      have c': "\<forall>i<length tr. snd (tr ! i) = run_minimizer K ms (fst (tr ! i))"
      proof (intro allI impI)
        fix i assume "i < length tr"
        then show "snd (tr ! i) = run_minimizer K ms (fst (tr ! i))"
          using s3_def ih_run [of "i - 1"] eq by (cases i) simp_all
      qed
      have d: "\<forall>i<length tr. fst (tr ! i) = set_slope (if i = 0 then s else snd (tr ! (i - 1))) (100 * 10 ^ (2 * (p + i)))"
      proof (intro allI impI)
        fix i assume "i < length tr"
        then show "fst (tr ! i) = set_slope (if i = 0 then s else snd (tr ! (i - 1))) (100 * 10 ^ (2 * (p + i)))"
          using s1_def ih_chain [of "i - 1"] eq by (cases i) (simp_all add: nth_Cons split: nat.splits)
      qed
      have e': "\<forall>i. Suc i < length tr \<longrightarrow> \<not> within_box K (nc (snd (tr ! i))) (m (snd (tr ! i)))"
      proof (intro allI impI)
        fix i assume "Suc i < length tr"
        then show "\<not> within_box K (nc (snd (tr ! i))) (m (snd (tr ! i)))"
          using w ih_fail [of "i - 1"] eq by (cases i) simp_all
      qed
      have f: "length tr < 5 - p \<longrightarrow> within_box K (nc s') (m s')"
        using ih_stop eq by simp
      have g': "s' = (if tr = [] then s else snd (last tr))"
        using ih_last eq by simp
      from a b c' d e' f g' eq show ?thesis by simp
    qed
  qed
qed

lemma refine_structure_unfold:
  "refine_loop K ms 0 \<lparr>m = m0, nc = nc0, out = out0, g = zero_change K m0\<rparr> = (s, tr) \<Longrightarrow>
   refine_structure K m0 nc0 out0 ms =
     (s\<lparr>out := (if \<not> within_box K (nc s) (m s)
                 then (out s)\<lparr>coords := get_heavy_atom_movable_coords K (m s), e := max_fl K\<rparr>
                 else (out s)\<lparr>coords := get_heavy_atom_movable_coords K (m s)\<rparr>),
        nc := (nc s)\<lparr>slope := slope nc0\<rparr>\<rparr>, tr)"
  by (simp add: refine_structure_def Let_def)

text \<open>
  C1. After \<open>refine_structure\<close> the slope of the evaluator is the slope it had before the
  call, whatever the minimizer did and however the loop was left (early break, or all five
  attempts used and the sentinel written).
\<close>

theorem refine_structure_restores_slope:
  "slope (nc (fst (refine_structure K m0 nc0 out0 max_steps))) = slope nc0"
  by (simp add: refine_structure_def Let_def split: prod.splits)

text \<open>
  C8. The attempts of \<open>refine_structure\<close>: there are between one and five; attempt \<open>p\<close>
  hands the minimizer an evaluator whose slope is \<open>100 * 10 ^ (2 * p)\<close>; after each run
  the model is set to the conformation of the minimizer's result, and the next attempt
  starts from there; every attempt but the last left the model outside the box, and when
  fewer than five attempts were made the last one left it inside, so the loop stops at the
  first attempt after which the within-box predicate holds.
\<close>

theorem refine_structure_attempts:
  assumes "refine_structure K m0 nc0 out0 max_steps = (s', tr)"
  shows "1 \<le> length tr \<and> length tr \<le> 5
    \<and> (\<forall>p<length tr. slope (nc (fst (tr ! p))) = 100 * 10 ^ (2 * p))
    \<and> (\<forall>p<length tr. snd (tr ! p) =
          (quasi_newton_par K max_steps (fst (tr ! p)))
            \<lparr>m := set_conf K (m (quasi_newton_par K max_steps (fst (tr ! p))))
                    (c (out (quasi_newton_par K max_steps (fst (tr ! p)))))\<rparr>)
    \<and> fst (tr ! 0) = set_slope \<lparr>m = m0, nc = nc0, out = out0, g = zero_change K m0\<rparr> 100
    \<and> (\<forall>p. Suc p < length tr \<longrightarrow>
          fst (tr ! Suc p) = set_slope (snd (tr ! p)) (100 * 10 ^ (2 * Suc p)))
    \<and> (\<forall>p. Suc p < length tr \<longrightarrow> \<not> within_box K (nc (snd (tr ! p))) (m (snd (tr ! p))))
    \<and> (length tr < 5 \<longrightarrow> within_box K (nc (snd (last tr))) (m (snd (last tr))))
    \<and> m s' = m (snd (last tr)) \<and> c (out s') = c (out (snd (last tr)))"
proof -
  let ?s0 = "\<lparr>m = m0, nc = nc0, out = out0, g = zero_change K m0\<rparr>"
  obtain s where loop: "refine_loop K max_steps 0 ?s0 = (s, tr)"
    using assms by (cases "refine_loop K max_steps 0 ?s0") (simp add: refine_structure_def Let_def)
  note T = refine_loop_trace [OF loop, unfolded add_0 diff_zero]
  have pos: "(0::nat) < 5" by simp
  from T pos have len: "length tr \<le> 5" and ne: "tr \<noteq> []"
    and sl: "\<And>i. i < length tr \<Longrightarrow> slope (nc (fst (tr ! i))) = 100 * 10 ^ (2 * i)"
    and run: "\<And>i. i < length tr \<Longrightarrow> snd (tr ! i) = run_minimizer K max_steps (fst (tr ! i))"
    and chain: "\<And>i. i < length tr \<Longrightarrow>
        fst (tr ! i) = set_slope (if i = 0 then ?s0 else snd (tr ! (i - 1))) (100 * 10 ^ (2 * i))"
    and fail: "\<And>i. Suc i < length tr \<Longrightarrow> \<not> within_box K (nc (snd (tr ! i))) (m (snd (tr ! i)))"
    and stop: "length tr < 5 \<Longrightarrow> within_box K (nc s) (m s)"
    and last: "s = (if tr = [] then ?s0 else snd (last tr))"
    by blast+
  from last ne have last: "s = snd (last tr)" by simp
  have s': "s' = s\<lparr>out := (if \<not> within_box K (nc s) (m s)
                 then (out s)\<lparr>coords := get_heavy_atom_movable_coords K (m s), e := max_fl K\<rparr>
                 else (out s)\<lparr>coords := get_heavy_atom_movable_coords K (m s)\<rparr>),
        nc := (nc s)\<lparr>slope := slope nc0\<rparr>\<rparr>"
    using assms refine_structure_unfold [OF loop] by simp
  have 1: "1 \<le> length tr" using ne by (cases tr) simp_all
  have 2: "\<forall>p<length tr. slope (nc (fst (tr ! p))) = 100 * 10 ^ (2 * p)" using sl by blast
  have 3: "\<forall>p<length tr. snd (tr ! p) =
          (quasi_newton_par K max_steps (fst (tr ! p)))
            \<lparr>m := set_conf K (m (quasi_newton_par K max_steps (fst (tr ! p))))
                    (c (out (quasi_newton_par K max_steps (fst (tr ! p)))))\<rparr>"
    using run by (simp add: run_minimizer_def Let_def)
  have 4: "fst (tr ! 0) = set_slope ?s0 100" using chain [of 0] ne by simp
  have 5: "\<forall>p. Suc p < length tr \<longrightarrow>
          fst (tr ! Suc p) = set_slope (snd (tr ! p)) (100 * 10 ^ (2 * Suc p))"
    using chain by fastforce
  have 6: "\<forall>p. Suc p < length tr \<longrightarrow> \<not> within_box K (nc (snd (tr ! p))) (m (snd (tr ! p)))"
    using fail by blast
  have 7: "length tr < 5 \<longrightarrow> within_box K (nc (snd (last tr))) (m (snd (last tr)))"
    using stop last by simp
  have 8: "m s' = m (snd (last tr)) \<and> c (out s') = c (out (snd (last tr)))"
    using s' last by simp
  from 1 len 2 3 4 5 6 7 8 show ?thesis by blast
qed


text \<open>The example starts three steps outside the box: three attempts, the last at slope \<open>10 ^ 6\<close>.\<close>

theorem refine_structure_attempts_witness:
  "length (snd (refine_structure example_collab 10 \<lparr>slope = 1000000\<rparr> \<lparr>c = 10, e = 0, coords = 10\<rparr> 1000)) = 3
   \<and> slope (nc (fst (snd (refine_structure example_collab 10 \<lparr>slope = 1000000\<rparr>
                              \<lparr>c = 10, e = 0, coords = 10\<rparr> 1000) ! 2))) = 1000000
   \<and> \<not> within_box example_collab
          (nc (snd (snd (refine_structure example_collab 10 \<lparr>slope = 1000000\<rparr>
                           \<lparr>c = 10, e = 0, coords = 10\<rparr> 1000) ! 1)))
          (m (snd (snd (refine_structure example_collab 10 \<lparr>slope = 1000000\<rparr>
                          \<lparr>c = 10, e = 0, coords = 10\<rparr> 1000) ! 1)))
   \<and> within_box example_collab
        (nc (snd (last (snd (refine_structure example_collab 10 \<lparr>slope = 1000000\<rparr>
                              \<lparr>c = 10, e = 0, coords = 10\<rparr> 1000)))))
        (m (snd (last (snd (refine_structure example_collab 10 \<lparr>slope = 1000000\<rparr>
                             \<lparr>c = 10, e = 0, coords = 10\<rparr> 1000)))))
   \<and> m (fst (refine_structure example_collab 10 \<lparr>slope = 1000000\<rparr> \<lparr>c = 10, e = 0, coords = 10\<rparr> 1000)) = 7"
proof -
  let ?r = "refine_structure example_collab 10 \<lparr>slope = 1000000\<rparr> \<lparr>c = 10, e = 0, coords = 10\<rparr> 1000"
  have len: "length (snd ?r) = 3"
    by (simp add: refine_structure_def refine_loop.simps run_minimizer_def set_slope_def
          example_collab_def Let_def)
  have fin: "m (fst ?r) = 7"
    by (simp add: refine_structure_def refine_loop.simps run_minimizer_def set_slope_def
          example_collab_def Let_def)
  have r: "?r = (fst ?r, snd ?r)" by simp
  note T = refine_structure_attempts [OF r]
  from T have sl: "\<forall>p<length (snd ?r). slope (nc (fst (snd ?r ! p))) = 100 * 10 ^ (2 * p)"
    and fail: "\<forall>p. Suc p < length (snd ?r) \<longrightarrow>
                 \<not> within_box example_collab (nc (snd (snd ?r ! p))) (m (snd (snd ?r ! p)))"
    and stop: "length (snd ?r) < 5 \<longrightarrow>
                 within_box example_collab (nc (snd (last (snd ?r)))) (m (snd (last (snd ?r))))"
    by blast+
  from sl [rule_format, of 2] len have 1: "slope (nc (fst (snd ?r ! 2))) = 1000000" by simp
  from fail [rule_format, of 1] len
  have 2: "\<not> within_box example_collab (nc (snd (snd ?r ! 1))) (m (snd (snd ?r ! 1)))"
    by simp
  from stop len have 3: "within_box example_collab (nc (snd (last (snd ?r)))) (m (snd (last (snd ?r))))"
    by simp
  from len 1 2 3 fin show ?thesis by blast
qed

section \<open>Properties of the selection for output\<close>

lemma select_loop_inv:
  "how_many s = i \<Longrightarrow> i \<le> length pool \<Longrightarrow>
   select_loop not_max plus_fl bounds pool num_modes energy_range i s = s' \<Longrightarrow>
     i \<le> how_many s' \<and> how_many s' \<le> length pool
   \<and> (\<forall>j. i \<le> j \<and> j < how_many s' \<longrightarrow>
          \<not> (num_modes \<le> j \<or> \<not> not_max (e (pool ! j)) \<or> plus_fl (e (pool ! 0)) energy_range < e (pool ! j)))
   \<and> (how_many s' < length pool \<longrightarrow>
          (num_modes \<le> how_many s' \<or> \<not> not_max (e (pool ! how_many s'))
           \<or> plus_fl (e (pool ! 0)) energy_range < e (pool ! how_many s')))
   \<and> remarks s' = remarks s @
        map (\<lambda>j. (e (pool ! j), fst (bounds (c (pool ! j))), snd (bounds (c (pool ! j))))) [i..<how_many s']
   \<and> log_lines s' = log_lines s @
        map (\<lambda>j. Mode_line (j + 1) (e (pool ! j)) (fst (bounds (c (pool ! j)))) (snd (bounds (c (pool ! j)))))
          [i..<how_many s']"
proof (induction not_max plus_fl bounds pool num_modes energy_range i s arbitrary: s' rule: select_loop.induct)
  case (1 not_max plus_fl bounds out_cont num_modes energy_range i s)
  let ?stop = "how_many s \<ge> num_modes \<or> \<not> not_max (e (out_cont ! i))
            \<or> e (out_cont ! i) > plus_fl (e (out_cont ! 0)) energy_range"
  show ?case
  proof (cases "i < length out_cont")
    case False
    with "1.prems"(3) have "s' = s"
      by (subst (asm) select_loop.simps) simp
    with False "1.prems"(1,2) show ?thesis by simp
  next
    case lt: True
    show ?thesis
    proof (cases ?stop)
      case True
      with lt "1.prems"(3) have "s' = s"
        by (subst (asm) select_loop.simps) simp
      with True lt "1.prems"(1,2) show ?thesis by auto
    next
      case False
      define s1 where "s1 = \<lparr>how_many = how_many s + 1,
          remarks = remarks s @ [(e (out_cont ! i), fst (bounds (c (out_cont ! i))), snd (bounds (c (out_cont ! i))))],
          log_lines = log_lines s @ [Mode_line (i + 1) (e (out_cont ! i)) (fst (bounds (c (out_cont ! i)))) (snd (bounds (c (out_cont ! i))))]\<rparr>"
      have rec: "select_loop not_max plus_fl bounds out_cont num_modes energy_range (i + 1) s1 = s'"
        using False lt "1.prems"(3)
        by (subst (asm) select_loop.simps) (simp add: Let_def s1_def)
      have hm: "how_many s1 = i + 1" using "1.prems"(1) by (simp add: s1_def)
      have le: "i + 1 \<le> length out_cont" using lt by simp
      note IH = "1.IH" [OF lt False refl refl, folded s1_def, OF hm le rec]
      from IH have ge: "i + 1 \<le> how_many s'" by blast
      then have upt: "[i..<how_many s'] = i # [i + 1..<how_many s']"
        by (simp add: upt_conv_Cons)
      have a: "\<forall>j. i \<le> j \<and> j < how_many s' \<longrightarrow>
          \<not> (num_modes \<le> j \<or> \<not> not_max (e (out_cont ! j)) \<or> plus_fl (e (out_cont ! 0)) energy_range < e (out_cont ! j))"
      proof (intro allI impI)
        fix j assume j: "i \<le> j \<and> j < how_many s'"
        show "\<not> (num_modes \<le> j \<or> \<not> not_max (e (out_cont ! j)) \<or> plus_fl (e (out_cont ! 0)) energy_range < e (out_cont ! j))"
        proof (cases "j = i")
          case True
          with False "1.prems"(1) show ?thesis by simp
        next
          case False
          with j have "i + 1 \<le> j \<and> j < how_many s'" by simp
          with IH show ?thesis by blast
        qed
      qed
      have b: "remarks s' = remarks s @
        map (\<lambda>j. (e (out_cont ! j), fst (bounds (c (out_cont ! j))), snd (bounds (c (out_cont ! j))))) [i..<how_many s']"
        using IH upt by (simp add: s1_def)
      have c': "log_lines s' = log_lines s @
        map (\<lambda>j. Mode_line (j + 1) (e (out_cont ! j)) (fst (bounds (c (out_cont ! j)))) (snd (bounds (c (out_cont ! j)))))
          [i..<how_many s']"
        using IH upt by (simp add: s1_def)
      from IH a b c' ge show ?thesis by simp
    qed
  qed
qed

lemma write_all_output_selected:
  "length rmks = n \<Longrightarrow> n \<le> length pool \<Longrightarrow>
   write_all_output writable pool n rmks =
     (if writable then Inr (map (\<lambda>i. (i + 1, c (pool ! i), rmks ! i)) [0..<n]) else Inl File_error)"
  by (simp add: write_all_output_def)

text \<open>
  C4, with the warning tied to the writing. The selection loop emits the poses of the pool
  in order, as many as \<open>how_many\<close> says: every emitted index is below the mode count,
  carries an energy that passes \<open>not_max\<close> and does not exceed the sum, as the floating
  type computes it, of the first energy and \<open>energy_range\<close>; and when the loop stopped
  before the end of the pool, the first index not emitted has reached the mode count, or
  fails \<open>not_max\<close>, or exceeds that sum. With \<open>not_max\<close> the test that an energy
  differs from the sentinel \<open>mx\<close>, this is: no emitted pose carries the sentinel, and the
  first pose not emitted has reached the mode count, carries the sentinel or exceeds the
  range. When the output file can be opened, what is written are exactly the emitted poses,
  numbered from 1, and the warning is logged exactly when none was selected; when it
  cannot, \<open>write_all_output\<close> raises before the warning is reached.
\<close>

theorem selection_stops_at_first:
  assumes "select_loop not_max plus_fl bounds pool num_modes energy_range 0
             \<lparr>how_many = 0, remarks = [], log_lines = []\<rparr> = s"
  shows "how_many s \<le> length pool
    \<and> (\<forall>i<how_many s. i < num_modes \<and> not_max (e (pool ! i))
          \<and> e (pool ! i) \<le> plus_fl (e (pool ! 0)) energy_range)
    \<and> (how_many s < length pool \<longrightarrow>
          num_modes \<le> how_many s \<or> \<not> not_max (e (pool ! how_many s))
          \<or> e (pool ! how_many s) > plus_fl (e (pool ! 0)) energy_range)
    \<and> ((\<forall>x. not_max x = (x \<noteq> mx)) \<longrightarrow>
          (\<forall>i<how_many s. e (pool ! i) \<noteq> mx)
          \<and> (how_many s < length pool \<longrightarrow>
                num_modes \<le> how_many s \<or> e (pool ! how_many s) = mx
                \<or> e (pool ! how_many s) > plus_fl (e (pool ! 0)) energy_range))
    \<and> log_lines s =
         map (\<lambda>i. Mode_line (i + 1) (e (pool ! i)) (fst (bounds (c (pool ! i)))) (snd (bounds (c (pool ! i)))))
           [0..<how_many s]
    \<and> select_output not_max plus_fl bounds writable pool num_modes energy_range =
         (if writable
          then Inr (map (\<lambda>i. (i + 1, c (pool ! i),
                               (e (pool ! i), fst (bounds (c (pool ! i))), snd (bounds (c (pool ! i))))))
                      [0..<how_many s],
                    log_lines s @ (if how_many s = 0 then [Warning_no_conformation] else []))
          else Inl File_error)"
proof -
  let ?init = "\<lparr>how_many = 0, remarks = [], log_lines = []\<rparr>"
  have h0: "how_many ?init = 0" by simp
  note I = select_loop_inv [OF h0 le0 assms]
  from I have le: "how_many s \<le> length pool" by blast
  from I have keep: "\<And>j. j < how_many s \<Longrightarrow>
      \<not> (num_modes \<le> j \<or> \<not> not_max (e (pool ! j)) \<or> plus_fl (e (pool ! 0)) energy_range < e (pool ! j))"
    by blast
  from I have stop: "how_many s < length pool \<Longrightarrow>
      num_modes \<le> how_many s \<or> \<not> not_max (e (pool ! how_many s))
      \<or> plus_fl (e (pool ! 0)) energy_range < e (pool ! how_many s)"
    by blast
  from I have rm: "remarks s =
      map (\<lambda>j. (e (pool ! j), fst (bounds (c (pool ! j))), snd (bounds (c (pool ! j))))) [0..<how_many s]"
    by simp
  from I have lg: "log_lines s =
      map (\<lambda>j. Mode_line (j + 1) (e (pool ! j)) (fst (bounds (c (pool ! j)))) (snd (bounds (c (pool ! j)))))
        [0..<how_many s]"
    by simp
  have 2: "\<forall>i<how_many s. i < num_modes \<and> not_max (e (pool ! i))
          \<and> e (pool ! i) \<le> plus_fl (e (pool ! 0)) energy_range"
    using keep by (auto simp: not_le not_less)
  have 3: "how_many s < length pool \<longrightarrow>
          num_modes \<le> how_many s \<or> \<not> not_max (e (pool ! how_many s))
          \<or> e (pool ! how_many s) > plus_fl (e (pool ! 0)) energy_range"
    using stop by auto
  have 4: "(\<forall>x. not_max x = (x \<noteq> mx)) \<longrightarrow>
          (\<forall>i<how_many s. e (pool ! i) \<noteq> mx)
          \<and> (how_many s < length pool \<longrightarrow>
                num_modes \<le> how_many s \<or> e (pool ! how_many s) = mx
                \<or> e (pool ! how_many s) > plus_fl (e (pool ! 0)) energy_range)"
  proof
    assume nm: "\<forall>x. not_max x = (x \<noteq> mx)"
    from 2 nm have "\<forall>i<how_many s. e (pool ! i) \<noteq> mx" by simp
    moreover from 3 nm have "how_many s < length pool \<longrightarrow>
                num_modes \<le> how_many s \<or> e (pool ! how_many s) = mx
                \<or> e (pool ! how_many s) > plus_fl (e (pool ! 0)) energy_range"
      by simp
    ultimately show "(\<forall>i<how_many s. e (pool ! i) \<noteq> mx)
          \<and> (how_many s < length pool \<longrightarrow>
                num_modes \<le> how_many s \<or> e (pool ! how_many s) = mx
                \<or> e (pool ! how_many s) > plus_fl (e (pool ! 0)) energy_range)"
      by simp
  qed
  have len: "length (remarks s) = how_many s" by (simp add: rm)
  have w: "write_all_output writable pool (how_many s) (remarks s) =
     (if writable then Inr (map (\<lambda>i. (i + 1, c (pool ! i), remarks s ! i)) [0..<how_many s]) else Inl File_error)"
    by (rule write_all_output_selected [OF len le])
  have m: "map (\<lambda>i. (i + 1, c (pool ! i), remarks s ! i)) [0..<how_many s] =
        map (\<lambda>i. (i + 1, c (pool ! i),
                               (e (pool ! i), fst (bounds (c (pool ! i))), snd (bounds (c (pool ! i))))))
                      [0..<how_many s]"
    by (rule map_cong [OF refl]) (simp add: rm)
  have 5: "select_output not_max plus_fl bounds writable pool num_modes energy_range =
         (if writable
          then Inr (map (\<lambda>i. (i + 1, c (pool ! i),
                               (e (pool ! i), fst (bounds (c (pool ! i))), snd (bounds (c (pool ! i))))))
                      [0..<how_many s],
                    log_lines s @ (if how_many s = 0 then [Warning_no_conformation] else []))
          else Inl File_error)"
    unfolding select_output_def assms Let_def w m by simp
  from le 2 3 4 lg 5 show ?thesis by blast
qed

lemma example_selection:
  "select_loop example_not_max example_plus_fl example_bounds example_pool 9 3 0
     \<lparr>how_many = 0, remarks = [], log_lines = []\<rparr> =
   \<lparr>how_many = 2, remarks = [(- 5, 0, 1), (- 4, 0, 1)],
    log_lines = [Mode_line 1 (- 5) 0 1, Mode_line 2 (- 4) 0 1]\<rparr>"
  by (simp add: select_loop.simps example_pool_def example_not_max_def example_bounds_def
        example_plus_fl_def Let_def)

lemma example_rejected_selection:
  "select_loop example_not_max example_plus_fl example_bounds example_rejected_pool 9 3 0
     \<lparr>how_many = 0, remarks = [], log_lines = []\<rparr> =
   \<lparr>how_many = 0, remarks = [], log_lines = []\<rparr>"
  by (simp add: select_loop.simps example_rejected_pool_def example_not_max_def)

text \<open>
  In the example pool the third pose carries the sentinel 1000: two poses are emitted,
  and no warning is logged. From the pool whose only pose carries the sentinel nothing is
  emitted, and with a writable output the warning is logged.
\<close>

theorem selection_stops_at_first_witness:
  "select_output example_not_max example_plus_fl example_bounds True example_pool 9 3 =
     Inr ([(1, 1, (- 5, 0, 1)), (2, 2, (- 4, 0, 1))], [Mode_line 1 (- 5) 0 1, Mode_line 2 (- 4) 0 1])
   \<and> e (example_pool ! 2) = 1000
   \<and> select_output example_not_max example_plus_fl example_bounds True example_rejected_pool 9 3 =
     Inr ([], [Warning_no_conformation])"
proof -
  have nm: "\<forall>x. example_not_max x = (x \<noteq> 1000)" by (simp add: example_not_max_def)
  from selection_stops_at_first [OF example_selection, of 1000 True] nm
  have 1: "select_output example_not_max example_plus_fl example_bounds True example_pool 9 3 =
     Inr ([(1, 1, (- 5, 0, 1)), (2, 2, (- 4, 0, 1))], [Mode_line 1 (- 5) 0 1, Mode_line 2 (- 4) 0 1])
   \<and> e (example_pool ! 2) = 1000"
    by (simp add: example_pool_def example_bounds_def upt_rec)
  from selection_stops_at_first [OF example_rejected_selection, of 1000 True]
  have 2: "select_output example_not_max example_plus_fl example_bounds True example_rejected_pool 9 3 =
     Inr ([], [Warning_no_conformation])"
    by simp
  from 1 2 show ?thesis by simp
qed

text \<open>
  C4 as it stands fails where the output file cannot be opened: from the pool whose only
  pose carries the sentinel nothing is selected, \<open>write_all_output\<close> raises the file
  error, and the statement that logs the warning is not reached.
\<close>

theorem no_warning_when_output_cannot_open:
  "how_many (select_loop example_not_max example_plus_fl example_bounds example_rejected_pool 9 3 0
               \<lparr>how_many = 0, remarks = [], log_lines = []\<rparr>) = 0
   \<and> select_output example_not_max example_plus_fl example_bounds False example_rejected_pool 9 3 =
       Inl File_error"
  by (simp add: example_rejected_selection select_output_def write_all_output_def)

text \<open>
  C2. When the model is still outside the box after the last attempt, all five attempts
  were used and the energy of the pose is \<open>max_fl\<close>; otherwise the energy is the one the
  minimizer left. In the selection, a pose of the pool whose energy is \<open>max_fl\<close> is never
  emitted: the loop has stopped at or before its index, and no more models are written
  (\<open>not_max\<close>, declared outside the sources, is a parameter, of which this takes that it
  fails on \<open>max_fl\<close>).
\<close>

theorem sentinel_written_and_excluded:
  assumes "refine_structure K m0 nc0 out0 max_steps = (s', tr)"
  shows "(\<not> within_box K (nc (snd (last tr))) (m (snd (last tr))) \<longrightarrow>
            length tr = 5 \<and> e (out s') = max_fl K)
    \<and> (within_box K (nc (snd (last tr))) (m (snd (last tr))) \<longrightarrow>
            e (out s') = e (out (snd (last tr))))
    \<and> (i < length pool \<and> e (pool ! i) = max_fl K \<and> \<not> not_max (max_fl K) \<longrightarrow>
          how_many (select_loop not_max plus_fl bounds pool num_modes energy_range 0
                      \<lparr>how_many = 0, remarks = [], log_lines = []\<rparr>) \<le> i
        \<and> (\<forall>written lg. select_output not_max plus_fl bounds writable pool num_modes energy_range
                = Inr (written, lg) \<longrightarrow> length written \<le> i))"
proof -
  let ?s0 = "\<lparr>m = m0, nc = nc0, out = out0, g = zero_change K m0\<rparr>"
  let ?init = "\<lparr>how_many = 0, remarks = [], log_lines = []\<rparr> :: selection"
  obtain s where loop: "refine_loop K max_steps 0 ?s0 = (s, tr)"
    using assms by (cases "refine_loop K max_steps 0 ?s0") (simp add: refine_structure_def Let_def)
  note T = refine_loop_trace [OF loop, unfolded add_0 diff_zero]
  have pos: "(0::nat) < 5" by simp
  from T pos have len: "length tr \<le> 5" and ne: "tr \<noteq> []"
    and stop: "length tr < 5 \<Longrightarrow> within_box K (nc s) (m s)"
    and last: "s = (if tr = [] then ?s0 else snd (last tr))"
    by blast+
  from last ne have last: "s = snd (last tr)" by simp
  have s': "s' = s\<lparr>out := (if \<not> within_box K (nc s) (m s)
                 then (out s)\<lparr>coords := get_heavy_atom_movable_coords K (m s), e := max_fl K\<rparr>
                 else (out s)\<lparr>coords := get_heavy_atom_movable_coords K (m s)\<rparr>),
        nc := (nc s)\<lparr>slope := slope nc0\<rparr>\<rparr>"
    using assms refine_structure_unfold [OF loop] by simp
  have 1: "\<not> within_box K (nc (snd (last tr))) (m (snd (last tr))) \<longrightarrow>
            length tr = 5 \<and> e (out s') = max_fl K"
    using stop len last s' by (cases "length tr < 5") auto
  have 2: "within_box K (nc (snd (last tr))) (m (snd (last tr))) \<longrightarrow>
            e (out s') = e (out (snd (last tr)))"
    using last s' by simp
  have 3: "i < length pool \<and> e (pool ! i) = max_fl K \<and> \<not> not_max (max_fl K) \<longrightarrow>
          how_many (select_loop not_max plus_fl bounds pool num_modes energy_range 0 ?init) \<le> i
        \<and> (\<forall>written lg. select_output not_max plus_fl bounds writable pool num_modes energy_range
                = Inr (written, lg) \<longrightarrow> length written \<le> i)"
  proof (intro impI)
    assume a: "i < length pool \<and> e (pool ! i) = max_fl K \<and> \<not> not_max (max_fl K)"
    define t where "t = select_loop not_max plus_fl bounds pool num_modes energy_range 0 ?init"
    have h0: "how_many ?init = 0" by simp
    note I = select_loop_inv [OF h0 le0 t_def [symmetric]]
    from I have keep: "\<And>j. j < how_many t \<Longrightarrow> not_max (e (pool ! j))"
      by blast
    have hm: "how_many t \<le> i"
    proof (rule ccontr)
      assume "\<not> how_many t \<le> i"
      then have "i < how_many t" by simp
      from keep [OF this] a show False by simp
    qed
    have "length written \<le> i"
      if "select_output not_max plus_fl bounds writable pool num_modes energy_range = Inr (written, lg)"
      for written lg
    proof -
      from I have le: "how_many t \<le> length pool" by blast
      from that have "length written = min (length pool) (how_many t)"
        by (auto simp: select_output_def write_all_output_def Let_def t_def [symmetric]
                 split: if_splits sum.splits)
      with hm show ?thesis by simp
    qed
    with hm show "how_many (select_loop not_max plus_fl bounds pool num_modes energy_range 0 ?init) \<le> i
        \<and> (\<forall>written lg. select_output not_max plus_fl bounds writable pool num_modes energy_range
                = Inr (written, lg) \<longrightarrow> length written \<le> i)"
      unfolding t_def by blast
  qed
  from 1 2 3 show ?thesis by blast
qed

text \<open>
  Two runs of the example: from five steps outside the box and more, the fifth attempt
  still ends outside and the energy is the sentinel; from three steps outside, the third
  attempt ends inside and the energy stays what it was. The third pose of the example pool
  carries the sentinel, and two models are written.
\<close>

theorem sentinel_written_and_excluded_witness:
  "e (out (fst (refine_structure example_collab 20 \<lparr>slope = 1000000\<rparr> \<lparr>c = 20, e = - 7, coords = 0\<rparr> 1000)))
     = 1000
   \<and> e (out (fst (refine_structure example_collab 10 \<lparr>slope = 1000000\<rparr> \<lparr>c = 10, e = - 7, coords = 0\<rparr> 1000)))
     = - 7
   \<and> how_many (select_loop example_not_max example_plus_fl example_bounds example_pool 9 3 0
                 \<lparr>how_many = 0, remarks = [], log_lines = []\<rparr>) \<le> 2
   \<and> length (fst (projr (select_output example_not_max example_plus_fl example_bounds True example_pool 9 3))) \<le> 2"
proof -
  let ?r = "refine_structure example_collab 20 \<lparr>slope = 1000000\<rparr> \<lparr>c = 20, e = - 7, coords = 0\<rparr> 1000"
  let ?q = "refine_structure example_collab 10 \<lparr>slope = 1000000\<rparr> \<lparr>c = 10, e = - 7, coords = 0\<rparr> 1000"
  have r: "?r = (fst ?r, snd ?r)" and q: "?q = (fst ?q, snd ?q)" by simp_all
  have outside: "\<not> within_box example_collab (nc (snd (last (snd ?r)))) (m (snd (last (snd ?r))))"
    by (simp add: refine_structure_def refine_loop.simps run_minimizer_def set_slope_def
          example_collab_def Let_def)
  have inside: "within_box example_collab (nc (snd (last (snd ?q)))) (m (snd (last (snd ?q))))"
    by (simp add: refine_structure_def refine_loop.simps run_minimizer_def set_slope_def
          example_collab_def Let_def)
  have kept: "e (out (snd (last (snd ?q)))) = - 7"
    by (simp add: refine_structure_def refine_loop.simps run_minimizer_def set_slope_def
          example_collab_def Let_def)
  have mx: "max_fl example_collab = 1000" by (simp add: example_collab_def)
  have pose: "2 < length example_pool \<and> e (example_pool ! 2) = max_fl example_collab
      \<and> \<not> example_not_max (max_fl example_collab)"
    by (simp add: example_pool_def example_collab_def example_not_max_def)
  have sel: "select_output example_not_max example_plus_fl example_bounds True example_pool 9 3 =
      Inr (fst (projr (select_output example_not_max example_plus_fl example_bounds True example_pool 9 3)),
           snd (projr (select_output example_not_max example_plus_fl example_bounds True example_pool 9 3)))"
    by (simp add: select_output_def write_all_output_def example_selection Let_def)
  note R = sentinel_written_and_excluded [OF r, of 2 example_pool example_not_max example_plus_fl example_bounds 9 3 True]
  note Q = sentinel_written_and_excluded [OF q, of 2 example_pool example_not_max example_plus_fl example_bounds 9 3 True]
  from R outside mx have 1: "e (out (fst ?r)) = 1000" by simp
  from Q inside kept have 2: "e (out (fst ?q)) = - 7" by simp
  from R pose mx have 3: "how_many (select_loop example_not_max example_plus_fl example_bounds example_pool 9 3 0
                 \<lparr>how_many = 0, remarks = [], log_lines = []\<rparr>) \<le> 2"
    by simp
  from R pose mx sel have 4: "length (fst (projr (select_output example_not_max example_plus_fl example_bounds True example_pool 9 3))) \<le> 2"
    by metis
  from 1 2 3 4 show ?thesis by blast
qed

section \<open>Properties of the result pool\<close>

text \<open>The fold of remove_redundant with any capacity that the candidates cannot exhaust.\<close>

lemma add_below_capacity:
  "length pool < max_size \<Longrightarrow>
   add_to_output_container rmsd pool t min_rmsd max_size =
     (if \<forall>a \<in> set pool. min_rmsd \<le> rmsd (coords a) (coords t) then pool @ [t] else pool)"
  by (simp add: add_to_output_container_def)

lemma fold_length:
  "length (foldl (\<lambda>tmp t. add_to_output_container rmsd tmp t min_rmsd max_size) [] xs) \<le> length xs"
proof (induction xs rule: rev_induct)
  case Nil
  show ?case by simp
next
  case (snoc x xs)
  then show ?case by (simp add: add_to_output_container_def)
qed

lemma fold_snoc:
  "length xs < max_size \<Longrightarrow>
   foldl (\<lambda>tmp t. add_to_output_container rmsd tmp t min_rmsd max_size) [] (xs @ [x]) =
     (let pool = foldl (\<lambda>tmp t. add_to_output_container rmsd tmp t min_rmsd max_size) [] xs
      in if \<forall>a \<in> set pool. min_rmsd \<le> rmsd (coords a) (coords x) then pool @ [x] else pool)"
  using fold_length [of rmsd min_rmsd max_size xs]
  by (simp add: add_below_capacity Let_def)

lemma fold_subset:
  "length xs \<le> max_size \<Longrightarrow>
   set (foldl (\<lambda>tmp t. add_to_output_container rmsd tmp t min_rmsd max_size) [] xs) \<subseteq> set xs"
proof (induction xs rule: rev_induct)
  case Nil
  show ?case by simp
next
  case (snoc x xs)
  then have "length xs < max_size" by simp
  from fold_snoc [OF this] snoc show ?case by (auto simp: Let_def)
qed

lemma fold_pairwise:
  "length xs \<le> max_size \<Longrightarrow>
   pool = foldl (\<lambda>tmp t. add_to_output_container rmsd tmp t min_rmsd max_size) [] xs \<Longrightarrow>
   i < j \<Longrightarrow> j < length pool \<Longrightarrow> min_rmsd \<le> rmsd (coords (pool ! i)) (coords (pool ! j))"
proof (induction xs arbitrary: pool i j rule: rev_induct)
  case Nil
  then show ?case by simp
next
  case (snoc x xs)
  define old where "old = foldl (\<lambda>tmp t. add_to_output_container rmsd tmp t min_rmsd max_size) [] xs"
  from snoc.prems have lt: "length xs < max_size" by simp
  have IH: "\<And>i j. i < j \<Longrightarrow> j < length old \<Longrightarrow> min_rmsd \<le> rmsd (coords (old ! i)) (coords (old ! j))"
    using snoc.IH [OF _ old_def] lt by simp
  have pool: "pool = (if \<forall>a \<in> set old. min_rmsd \<le> rmsd (coords a) (coords x) then old @ [x] else old)"
    using fold_snoc [OF lt, of rmsd min_rmsd x] snoc.prems(2) by (simp add: Let_def old_def)
  show ?case
  proof (cases "\<forall>a \<in> set old. min_rmsd \<le> rmsd (coords a) (coords x)")
    case False
    with pool snoc.prems IH show ?thesis by simp
  next
    case True
    with pool have p: "pool = old @ [x]" by simp
    show ?thesis
    proof (cases "j < length old")
      case True
      with snoc.prems(3) p IH show ?thesis by (simp add: nth_append)
    next
      case False
      with snoc.prems(4) p have j: "j = length old" by simp
      with snoc.prems(3) have "old ! i \<in> set old" by simp
      with True j p snoc.prems(3) show ?thesis by (simp add: nth_append)
    qed
  qed
qed

lemma fold_representative:
  "length xs \<le> max_size \<Longrightarrow> sorted (map e xs) \<Longrightarrow>
   pool = foldl (\<lambda>tmp t. add_to_output_container rmsd tmp t min_rmsd max_size) [] xs \<Longrightarrow>
   x \<in> set xs \<Longrightarrow>
   x \<in> set pool \<or> (\<exists>r \<in> set pool. rmsd (coords r) (coords x) < min_rmsd \<and> e r \<le> e x)"
proof (induction xs arbitrary: pool x rule: rev_induct)
  case Nil
  then show ?case by simp
next
  case (snoc y xs)
  define old where "old = foldl (\<lambda>tmp t. add_to_output_container rmsd tmp t min_rmsd max_size) [] xs"
  from snoc.prems have lt: "length xs < max_size" by simp
  from snoc.prems(2) have srt: "sorted (map e xs)" and le: "\<And>a. a \<in> set xs \<Longrightarrow> e a \<le> e y"
    by (auto simp: sorted_append)
  have sub: "set old \<subseteq> set xs" unfolding old_def using fold_subset lt by (metis less_imp_le)
  have pool: "pool = (if \<forall>a \<in> set old. min_rmsd \<le> rmsd (coords a) (coords y) then old @ [y] else old)"
    using fold_snoc [OF lt, of rmsd min_rmsd y] snoc.prems(3) by (simp add: Let_def old_def)
  have mono: "set old \<subseteq> set pool" using pool by auto
  show ?case
  proof (cases "x \<in> set xs")
    case True
    from snoc.IH [OF _ srt old_def True] lt
    have "x \<in> set old \<or> (\<exists>r \<in> set old. rmsd (coords r) (coords x) < min_rmsd \<and> e r \<le> e x)"
      by simp
    with mono show ?thesis by blast
  next
    case False
    with snoc.prems(4) have xy: "x = y" by simp
    show ?thesis
    proof (cases "\<forall>a \<in> set old. min_rmsd \<le> rmsd (coords a) (coords y)")
      case True
      with pool xy show ?thesis by simp
    next
      case False
      then obtain a where a: "a \<in> set old" "rmsd (coords a) (coords y) < min_rmsd"
        by (auto simp: not_le)
      from a(1) sub have "e a \<le> e y" using le by blast
      with a pool False xy show ?thesis by auto
    qed
  qed
qed

lemma fold_fixed:
  "length ys \<le> max_size \<Longrightarrow>
   (\<And>i j. i < j \<Longrightarrow> j < length ys \<Longrightarrow> min_rmsd \<le> rmsd (coords (ys ! i)) (coords (ys ! j))) \<Longrightarrow>
   foldl (\<lambda>tmp t. add_to_output_container rmsd tmp t min_rmsd max_size) [] ys = ys"
proof (induction ys rule: rev_induct)
  case Nil
  show ?case by simp
next
  case (snoc y ys)
  from snoc.prems(1) have lt: "length ys < max_size" by simp
  have far: "\<And>i j. i < j \<Longrightarrow> j < length ys \<Longrightarrow> min_rmsd \<le> rmsd (coords (ys ! i)) (coords (ys ! j))"
  proof -
    fix i j :: nat assume ij: "i < j" "j < length ys"
    then have "j < length (ys @ [y])" by simp
    from snoc.prems(2) [OF ij(1) this] ij show "min_rmsd \<le> rmsd (coords (ys ! i)) (coords (ys ! j))"
      by (simp add: nth_append)
  qed
  have old: "foldl (\<lambda>tmp t. add_to_output_container rmsd tmp t min_rmsd max_size) [] ys = ys"
    using snoc.IH [OF _ far] lt by simp
  have "\<forall>a \<in> set ys. min_rmsd \<le> rmsd (coords a) (coords y)"
  proof
    fix a assume "a \<in> set ys"
    then obtain i where i: "i < length ys" "ys ! i = a" by (auto simp: in_set_conv_nth)
    from snoc.prems(2) [of i "length ys"] i show "min_rmsd \<le> rmsd (coords a) (coords y)"
      by (simp add: nth_append)
  qed
  with fold_snoc [OF lt, of rmsd min_rmsd y] old show ?case by (simp add: Let_def)
qed

text \<open>
  C3. In the pool that \<open>remove_redundant\<close> returns, every two poses at different
  positions are at least \<open>min_rmsd\<close> apart (as the distance was computed, earlier pose
  first; in either order when the distance is symmetric). The pool holds poses of the
  input only, and when the input is in ascending order of energy, every candidate that was
  not retained lies closer than \<open>min_rmsd\<close> to a retained pose whose energy is not above
  its own: the retained pose has the lowest energy among the candidates it stands for.
\<close>

theorem remove_redundant_spread_and_representative:
  assumes "res = remove_redundant rmsd inp min_rmsd"
  shows "(\<forall>i j. i < j \<and> j < length res \<longrightarrow> min_rmsd \<le> rmsd (coords (res ! i)) (coords (res ! j)))
    \<and> ((\<forall>a b. rmsd a b = rmsd b a) \<longrightarrow>
          (\<forall>i j. i < length res \<and> j < length res \<and> i \<noteq> j \<longrightarrow>
             min_rmsd \<le> rmsd (coords (res ! i)) (coords (res ! j))))
    \<and> set res \<subseteq> set inp
    \<and> (sorted (map e inp) \<longrightarrow>
          (\<forall>x \<in> set inp. x \<in> set res
             \<or> (\<exists>r \<in> set res. rmsd (coords r) (coords x) < min_rmsd \<and> e r \<le> e x)))"
proof -
  have res: "res = foldl (\<lambda>tmp t. add_to_output_container rmsd tmp t min_rmsd (length inp)) [] inp"
    using assms by (simp add: remove_redundant_def)
  have far: "\<And>i j. i < j \<Longrightarrow> j < length res \<Longrightarrow> min_rmsd \<le> rmsd (coords (res ! i)) (coords (res ! j))"
    by (rule fold_pairwise [OF le_refl res])
  have 1: "\<forall>i j. i < j \<and> j < length res \<longrightarrow> min_rmsd \<le> rmsd (coords (res ! i)) (coords (res ! j))"
    using far by blast
  have 2: "(\<forall>a b. rmsd a b = rmsd b a) \<longrightarrow>
          (\<forall>i j. i < length res \<and> j < length res \<and> i \<noteq> j \<longrightarrow>
             min_rmsd \<le> rmsd (coords (res ! i)) (coords (res ! j)))"
  proof (intro impI allI)
    fix i j
    assume sym: "\<forall>a b. rmsd a b = rmsd b a"
      and ij: "i < length res \<and> j < length res \<and> i \<noteq> j"
    show "min_rmsd \<le> rmsd (coords (res ! i)) (coords (res ! j))"
    proof (cases "i < j")
      case True
      with ij far show ?thesis by blast
    next
      case False
      with ij have "j < i" by simp
      with ij far have "min_rmsd \<le> rmsd (coords (res ! j)) (coords (res ! i))" by blast
      with sym show ?thesis by simp
    qed
  qed
  have 3: "set res \<subseteq> set inp"
    unfolding res by (rule fold_subset [OF le_refl])
  have 4: "sorted (map e inp) \<longrightarrow>
          (\<forall>x \<in> set inp. x \<in> set res
             \<or> (\<exists>r \<in> set res. rmsd (coords r) (coords x) < min_rmsd \<and> e r \<le> e x))"
    using fold_representative [OF le_refl _ res] by blast
  from 1 2 3 4 show ?thesis by blast
qed

lemma example_dedup:
  "remove_redundant example_rmsd example_candidates 1 =
     [\<lparr>c = 1, e = - 5, coords = 0\<rparr>, \<lparr>c = 3, e = - 3, coords = 5\<rparr>]"
  by (simp add: remove_redundant_def add_to_output_container_def example_candidates_def
        example_rmsd_def)

theorem remove_redundant_spread_and_representative_witness:
  "sorted (map e example_candidates)
   \<and> (1::real) \<le> example_rmsd (coords (remove_redundant example_rmsd example_candidates 1 ! 0))
                         (coords (remove_redundant example_rmsd example_candidates 1 ! 1))
   \<and> (1::real) \<le> example_rmsd (coords (remove_redundant example_rmsd example_candidates 1 ! 1))
                         (coords (remove_redundant example_rmsd example_candidates 1 ! 0))
   \<and> (\<exists>r \<in> set (remove_redundant example_rmsd example_candidates 1).
         example_rmsd (coords r) (coords (example_candidates ! 1)) < 1
         \<and> e r \<le> e (example_candidates ! 1))"
proof -
  have srt: "sorted (map e example_candidates)" by (simp add: example_candidates_def)
  have sym: "\<forall>a b. example_rmsd a b = example_rmsd b a" by (simp add: example_rmsd_def abs_minus_commute)
  have len: "length (remove_redundant example_rmsd example_candidates 1) = 2"
    by (simp add: example_dedup)
  have mem: "example_candidates ! 1 \<in> set example_candidates"
    by (simp add: example_candidates_def)
  have out: "example_candidates ! 1 \<notin> set (remove_redundant example_rmsd example_candidates 1)"
    unfolding example_dedup by (simp add: example_candidates_def)
  note T = remove_redundant_spread_and_representative [OF refl, of example_rmsd example_candidates 1]
  from T len have a: "(1::real) \<le> example_rmsd (coords (remove_redundant example_rmsd example_candidates 1 ! 0))
                         (coords (remove_redundant example_rmsd example_candidates 1 ! 1))"
    by simp
  from T sym len have a': "(1::real) \<le> example_rmsd (coords (remove_redundant example_rmsd example_candidates 1 ! 1))
                         (coords (remove_redundant example_rmsd example_candidates 1 ! 0))"
    by simp
  from T srt mem out have b: "\<exists>r \<in> set (remove_redundant example_rmsd example_candidates 1).
         example_rmsd (coords r) (coords (example_candidates ! 1)) < 1
         \<and> e r \<le> e (example_candidates ! 1)"
    by blast
  from srt a a' b show ?thesis by blast
qed

text \<open>
  C9. Running \<open>remove_redundant\<close> on its own result, with the same \<open>min_rmsd\<close>, returns
  that result unchanged.
\<close>

theorem remove_redundant_idempotent:
  "remove_redundant rmsd (remove_redundant rmsd inp min_rmsd) min_rmsd =
   remove_redundant rmsd inp min_rmsd"
proof -
  define res where "res = remove_redundant rmsd inp min_rmsd"
  have res: "res = foldl (\<lambda>tmp t. add_to_output_container rmsd tmp t min_rmsd (length inp)) [] inp"
    by (simp add: res_def remove_redundant_def)
  have far: "\<And>i j. i < j \<Longrightarrow> j < length res \<Longrightarrow> min_rmsd \<le> rmsd (coords (res ! i)) (coords (res ! j))"
    by (rule fold_pairwise [OF le_refl res])
  have "foldl (\<lambda>tmp t. add_to_output_container rmsd tmp t min_rmsd (length res)) [] res = res"
  proof (rule fold_fixed)
    show "length res \<le> length res" by simp
  next
    fix i j :: nat
    assume "i < j" "j < length res"
    then show "min_rmsd \<le> rmsd (coords (res ! i)) (coords (res ! j))" by (rule far)
  qed
  then show ?thesis by (simp add: remove_redundant_def res_def)
qed

theorem remove_redundant_idempotent_witness:
  "remove_redundant example_rmsd
     [\<lparr>c = 1, e = - 5, coords = 0\<rparr>, \<lparr>c = 3, e = - 3, coords = 5\<rparr>] 1 =
   [\<lparr>c = 1, e = - 5, coords = 0\<rparr>, \<lparr>c = 3, e = - 3, coords = 5\<rparr> :: (int, int) output_type]"
  using remove_redundant_idempotent [of example_rmsd example_candidates 1]
  by (simp add: example_dedup)

section \<open>Properties of the mode dispatch\<close>

text \<open>
  C10. \<open>main_procedure\<close> populates the grid cache exactly when none of \<open>score_only\<close>,
  \<open>local_only\<close> and \<open>randomize_only\<close> is set and the cached path is taken
  (\<open>no_cache\<close> is false); nothing but the cache is ever populated. A run with
  \<open>local_only\<close> (and neither \<open>score_only\<close> nor \<open>randomize_only\<close>) populates nothing and
  refines and scores through the exact evaluator \<open>nc\<close>.
\<close>

theorem cache_populated_iff:
  "(Populate Cache_c \<in> set (main_procedure score_only local_only randomize_only no_cache)
      \<longleftrightarrow> \<not> score_only \<and> \<not> local_only \<and> \<not> randomize_only \<and> \<not> no_cache)
   \<and> (\<forall>ev. Populate ev \<in> set (main_procedure score_only local_only randomize_only no_cache)
          \<longrightarrow> ev = Cache_c)
   \<and> (local_only \<and> \<not> score_only \<and> \<not> randomize_only \<longrightarrow>
         main_procedure score_only local_only randomize_only no_cache =
           [Refine_structure Non_cache_nc, Eval_adjusted Non_cache_nc, Write_all_output])"
  by (auto simp: main_procedure_def do_search_def)

theorem cache_populated_iff_witness:
  "main_procedure False True False False =
     [Refine_structure Non_cache_nc, Eval_adjusted Non_cache_nc, Write_all_output]
   \<and> Populate Cache_c \<in> set (main_procedure False False False False)
   \<and> Populate Cache_c \<notin> set (main_procedure False True False False)"
  using cache_populated_iff [of False True False False] cache_populated_iff [of False False False False]
  by simp

section \<open>Properties of the fork-based scheduler\<close>

lemma size_ge_iff:
  assumes "0 \<le> sint k" "n < 2 ^ 64"
  shows "size_ge n k = (sint k \<le> int n)"
proof -
  have "sint k < 2 ^ 31" using sint_lt [of k] by simp
  also have "(2::int) ^ 31 < 2 ^ 64" by simp
  finally have lt: "sint k < 2 ^ LENGTH(64)" by simp
  have a: "uint (scast k :: 64 word) = sint k"
    unfolding scast_eq by (rule word_of_int_inverse [OF refl assms(1) lt])
  have n: "int n < 2 ^ LENGTH(64)" using assms(2) by simp
  have "uint (word_of_int (int n) :: 64 word) = int n"
    by (rule word_of_int_inverse [OF refl _ n]) simp
  then have b: "uint (of_nat n :: 64 word) = int n" by simp
  show ?thesis unfolding size_ge_def word_le_def a b ..
qed

lemma wait_pop_props:
  assumes "pid_queue s \<noteq> []" "length (pid_queue s) = length (children s)"
  shows "pid_queue (wait_pop first_exit s) = tl (pid_queue s)"
    and "length (children (wait_pop first_exit s)) = length (children s) - 1"
    and "sizes (wait_pop first_exit s) = sizes s @ [length (pid_queue s) - 1]"
proof -
  obtain front rest where q: "pid_queue s = front # rest"
    using assms(1) by (cases "pid_queue s") auto
  with assms(2) have ne: "children s \<noteq> []" by auto
  then have "first_exit (children s) mod length (children s) < length (children s)" by simp
  then have mem: "children s ! (first_exit (children s) mod length (children s)) \<in> set (children s)"
    by (rule nth_mem)
  show "pid_queue (wait_pop first_exit s) = tl (pid_queue s)"
    using q ne by (simp add: wait_pop_def Let_def)
  show "length (children (wait_pop first_exit s)) = length (children s) - 1"
    using q ne mem by (simp add: wait_pop_def Let_def length_remove1)
  show "sizes (wait_pop first_exit s) = sizes s @ [length (pid_queue s) - 1]"
    using q ne by (simp add: wait_pop_def Let_def)
qed

lemma drain_props:
  "length (pid_queue s) = length (children s) \<Longrightarrow>
     (u \<longrightarrow> pid_queue (drain first_exit u s) = [] \<and> children (drain first_exit u s) = [])
   \<and> (\<not> u \<longrightarrow> drain first_exit u s = s)
   \<and> (\<forall>n \<in> set (sizes (drain first_exit u s)). n \<in> set (sizes s) \<or> n < length (pid_queue s))"
proof (induction first_exit u s rule: drain.induct)
  case (1 first_exit u s)
  show ?case
  proof (cases "u \<and> length (pid_queue s) \<noteq> 0")
    case False
    with "1.prems" show ?thesis by (subst (1 2 3 4) drain.simps) auto
  next
    case True
    then have ne: "pid_queue s \<noteq> []" by simp
    note W = wait_pop_props [OF ne "1.prems", of first_exit]
    have eq: "length (pid_queue (wait_pop first_exit s)) = length (children (wait_pop first_exit s))"
      using W "1.prems" by simp
    have unf: "drain first_exit u s = drain first_exit u (wait_pop first_exit s)"
      using True by (subst drain.simps) simp
    from "1.IH" [OF True eq] True
    have IH: "pid_queue (drain first_exit u (wait_pop first_exit s)) = []"
      "children (drain first_exit u (wait_pop first_exit s)) = []"
      "\<forall>n \<in> set (sizes (drain first_exit u (wait_pop first_exit s))).
          n \<in> set (sizes (wait_pop first_exit s)) \<or> n < length (pid_queue (wait_pop first_exit s))"
      by simp_all
    have "\<forall>n \<in> set (sizes (drain first_exit u s)). n \<in> set (sizes s) \<or> n < length (pid_queue s)"
    proof
      fix n assume "n \<in> set (sizes (drain first_exit u s))"
      with unf IH(3) have "n \<in> set (sizes (wait_pop first_exit s)) \<or> n < length (pid_queue (wait_pop first_exit s))"
        by simp
      with W ne show "n \<in> set (sizes s) \<or> n < length (pid_queue s)"
        by (cases "pid_queue s") auto
    qed
    with unf IH True show ?thesis by simp
  qed
qed

lemma fork_loop_inv:
  "1 \<le> sint maxNbrOfFork \<Longrightarrow>
     length (pid_queue s) = length (children s) \<Longrightarrow>
     int (length (pid_queue s)) < sint maxNbrOfFork \<Longrightarrow>
     (\<not> u \<longrightarrow> pid_queue s = []) \<Longrightarrow>
     (\<forall>n \<in> set (sizes s). int n \<le> sint maxNbrOfFork) \<Longrightarrow>
     fork_loop fork_ret first_exit job_ok u maxNbrOfFork s = (r, s') \<Longrightarrow>
       (\<forall>n \<in> set (sizes s'). int n \<le> sint maxNbrOfFork)
     \<and> (r = End_of_file \<longrightarrow> pid_queue s' = [] \<and> children s' = [])"
proof (induction fork_ret first_exit job_ok u maxNbrOfFork s arbitrary: r s' rule: fork_loop.induct)
  case (1 fork_ret first_exit job_ok u maxNbrOfFork s)
  note N = "1.prems"(1)
  note eq = "1.prems"(2) and lt = "1.prems"(3) and nofork = "1.prems"(4) and sz = "1.prems"(5)
  note run = "1.prems"(6)
  obtain f path where gl: "getline (infile s) = (f, path)"
    by (cases "getline (infile s)") auto
  show ?case
  proof (cases "eofbit f \<or> path = []")
    case True
    with run have "(End_of_file, drain first_exit u (s\<lparr>infile := f\<rparr>)) = (r, s')"
      by (subst (asm) fork_loop.simps) (simp add: gl)
    then have r: "r = End_of_file" and s': "s' = drain first_exit u (s\<lparr>infile := f\<rparr>)"
      by simp_all
    have e: "length (pid_queue (s\<lparr>infile := f\<rparr>)) = length (children (s\<lparr>infile := f\<rparr>))"
      using eq by simp
    note D = drain_props [OF e, of u first_exit]
    have "pid_queue s' = [] \<and> children s' = []"
    proof (cases u)
      case True
      with D s' show ?thesis by simp
    next
      case False
      with D s' nofork eq show ?thesis by simp
    qed
    moreover have "\<forall>n \<in> set (sizes s'). int n \<le> sint maxNbrOfFork"
    proof
      fix n assume "n \<in> set (sizes s')"
      with D s' have "n \<in> set (sizes s) \<or> n < length (pid_queue s)" by simp
      with sz lt show "int n \<le> sint maxNbrOfFork" by auto
    qed
    ultimately show ?thesis by simp
  next
    case cont: False
    show ?thesis
    proof (cases u)
      case False
      define s1 where "s1 = s\<lparr>infile := f, ligand_i := if job_ok path then ligand_i s + 1 else ligand_i s\<rparr>"
      have rec: "fork_loop fork_ret first_exit job_ok u maxNbrOfFork s1 = (r, s')"
        using run cont False by (subst (asm) fork_loop.simps) (simp add: gl s1_def)
      have "length (pid_queue s1) = length (children s1)" "int (length (pid_queue s1)) < sint maxNbrOfFork"
        "\<not> u \<longrightarrow> pid_queue s1 = []" "\<forall>n \<in> set (sizes s1). int n \<le> sint maxNbrOfFork"
        using eq lt nofork sz False by (simp_all add: s1_def)
      from "1.IH"(2) [OF gl [symmetric] cont False N, folded s1_def, OF this rec] show ?thesis .
    next
      case True
      define pid where "pid = fork_ret (forks s)"
      define s1 where "s1 = s\<lparr>infile := f, forks := forks s + 1\<rparr>"
      define s2 where "s2 = push_pid pid s1"
      define s3 where "s3 = (if size_ge (length (pid_queue s2)) maxNbrOfFork
                             then wait_pop first_exit s2 else s2)"
      have unf: "fork_loop fork_ret first_exit job_ok u maxNbrOfFork s =
         (if pid = 0 then (Child_exit, s1)
          else if pid > 0 then fork_loop fork_ret first_exit job_ok u maxNbrOfFork s3
          else (Fork_failed, s1))"
        using cont True
        by (subst fork_loop.simps) (simp add: gl Let_def pid_def s1_def s2_def s3_def)
      show ?thesis
      proof (cases "pid > 0")
        case False
        with unf run have "s' = s1" "r \<noteq> End_of_file" by (auto split: if_splits)
        with sz show ?thesis by (simp add: s1_def)
      next
        case pos: True
        then have nz: "pid \<noteq> 0" by simp
        from unf run pos have rec: "fork_loop fork_ret first_exit job_ok u maxNbrOfFork s3 = (r, s')"
          by simp
        have q2: "pid_queue s2 = pid_queue s @ [pid]" "children s2 = children s @ [pid]"
          "sizes s2 = sizes s @ [length (pid_queue s) + 1]"
          by (simp_all add: s2_def push_pid_def s1_def)
        have len2: "int (length (pid_queue s2)) \<le> sint maxNbrOfFork" using lt q2 by simp
        have "sint maxNbrOfFork < 2 ^ 31" using sint_lt [of maxNbrOfFork] by simp
        with len2 have "int (length (pid_queue s2)) < 2 ^ 64" by simp
        then have small: "length (pid_queue s2) < 2 ^ 64"
          by (metis of_nat_less_iff of_nat_numeral of_nat_power)
        have ge: "size_ge (length (pid_queue s2)) maxNbrOfFork = (sint maxNbrOfFork \<le> int (length (pid_queue s2)))"
          using N small by (intro size_ge_iff) simp_all
        have ne2: "pid_queue s2 \<noteq> []" using q2 by simp
        have eq2: "length (pid_queue s2) = length (children s2)" using q2 eq by simp
        note W = wait_pop_props [OF ne2 eq2, of first_exit]
        have a: "length (pid_queue s3) = length (children s3)"
          using W eq2 by (simp add: s3_def)
        have b: "int (length (pid_queue s3)) < sint maxNbrOfFork"
          using W ge len2 q2 by (auto simp: s3_def)
        have c': "\<not> u \<longrightarrow> pid_queue s3 = []" using True by simp
        have d: "\<forall>n \<in> set (sizes s3). int n \<le> sint maxNbrOfFork"
          using W sz q2 len2 lt by (auto simp: s3_def)
        from "1.IH"(1) [OF gl [symmetric] cont True pid_def s1_def nz pos s2_def s3_def N a b c' d rec]
        show ?thesis .
      qed
    qed
  qed
qed

text \<open>
  C6, for a fan-out of at least 1. At every point of the loop the queue holds at most
  \<open>maxNbrOfFork\<close> identifiers: \<open>sizes\<close> lists its length after every \<open>push\<close> and every
  \<open>pop\<close>. When the loop is left because the job file is exhausted, the queue has been
  emptied by one \<open>wait\<close> per identifier, and no child of the process is left uncollected.
\<close>

theorem fork_queue_bounded_and_drained:
  assumes "1 \<le> sint maxNbrOfFork"
    and "fork_loop fork_ret first_exit job_ok use_fork_parallelism maxNbrOfFork (init_sched file) = (r, s')"
  shows "(\<forall>n \<in> set (sizes s'). int n \<le> sint maxNbrOfFork)
    \<and> (r = End_of_file \<longrightarrow> pid_queue s' = [] \<and> children s' = [])"
proof (rule fork_loop_inv [OF assms(1) _ _ _ _ assms(2)])
  show "length (pid_queue (init_sched file)) = length (children (init_sched file))"
    by (simp add: init_sched_def)
  show "int (length (pid_queue (init_sched file))) < sint maxNbrOfFork"
    using assms(1) by (simp add: init_sched_def)
  show "\<not> use_fork_parallelism \<longrightarrow> pid_queue (init_sched file) = []"
    by (simp add: init_sched_def)
  show "\<forall>n \<in> set (sizes (init_sched file)). int n \<le> sint maxNbrOfFork"
    by (simp add: init_sched_def)
qed

lemma example_run:
  "fork_loop example_fork_ret youngest_first example_job_ok True 2 (init_sched (Some example_jobs)) =
     (End_of_file,
      \<lparr>infile = \<lparr>content = example_jobs, pos = 6, eofbit = True, failbit = True\<rparr>,
       pid_queue = [], ligand_i = 0, forks = 3, children = [],
       sizes = [1, 2, 1, 2, 1, 0],
       waits = [(102, 101), (103, 102), (101, 103)]\<rparr>)"
  by code_simp

theorem fork_queue_bounded_and_drained_witness:
  "(1::int) \<le> sint (2 :: 32 word)
   \<and> fst (fork_loop example_fork_ret youngest_first example_job_ok True 2 (init_sched (Some example_jobs)))
       = End_of_file
   \<and> sizes (snd (fork_loop example_fork_ret youngest_first example_job_ok True 2
                    (init_sched (Some example_jobs)))) = [1, 2, 1, 2, 1, 0]
   \<and> pid_queue (snd (fork_loop example_fork_ret youngest_first example_job_ok True 2
                    (init_sched (Some example_jobs)))) = []"
proof -
  have N: "(1::int) \<le> sint (2 :: 32 word)" by simp
  from fork_queue_bounded_and_drained [OF N example_run] N show ?thesis
    unfolding example_run by simp
qed

text \<open>
  C6 without the bound on the fan-out fails: with a fan-out of 0 and one job, the queue
  holds one identifier between the \<open>push\<close> and the \<open>pop\<close>.
\<close>

theorem fork_queue_exceeds_zero_fan_out:
  "sizes (snd (fork_loop example_fork_ret youngest_first example_job_ok True 0
                 (init_sched (Some (job_file [''a'']))))) = [1, 0]
   \<and> sint (0 :: 32 word) < 1"
  by code_simp

text \<open>
  C7. Three jobs, a fan-out of 2, and the second child terminating before the first: when
  the queue reaches two identifiers, with 101 at its front, the \<open>wait\<close> of the admission
  check returns for child 102. The parent has not blocked on the oldest child: 101 is still
  running when its identifier is popped and the third job is admitted.
\<close>

theorem wait_returns_for_any_child:
  "waits (snd (fork_loop example_fork_ret youngest_first example_job_ok True 2
                 (init_sched (Some example_jobs)))) = [(102, 101), (103, 102), (101, 103)]"
  by code_simp

section \<open>Properties of the coordinator\<close>

text \<open>
  On a job file of \<open>k\<close> lines, none blank and each ended by a newline, the loop of the
  governor sends \<open>k + 1\<close> messages, and the last carries the offset of the end of the file.
\<close>

lemma getline_line:
  assumes "\<not> eofbit f" "\<not> failbit f" "drop (pos f) (content f) = l @ newline # rest" "newline \<notin> set l"
  shows "getline f = (f\<lparr>pos := pos f + length l + 1\<rparr>, l)"
proof -
  have "takeWhile (\<lambda>x. x \<noteq> newline) (l @ newline # rest) = l"
    using assms(4) by (auto simp: takeWhile_tail)
  with assms show ?thesis by (simp add: getline_def Let_def)
qed

lemma getline_end:
  assumes "\<not> eofbit f" "\<not> failbit f" "drop (pos f) (content f) = []"
  shows "getline f = (f\<lparr>pos := pos f, eofbit := True, failbit := True\<rparr>, [])"
  using assms by (simp add: getline_def Let_def)

lemma governor_loop_lines:
  assumes "\<forall>l \<in> set ls. newline \<notin> set l \<and> \<not> blank l"
    and "\<not> eofbit f" "\<not> failbit f"
    and "drop (pos f) (content f) = job_file ls" and "pos f \<le> length (content f)"
  shows "length (fst (governor_loop random_int source f count n sent)) = length sent + length ls + 1
    \<and> seek_offset (snd (last (fst (governor_loop random_int source f count n sent))))
        = to_int (int (length (content f)))"
  using assms
proof (induction ls arbitrary: f count n sent)
  case Nil
  then have d: "drop (pos f) (content f) = []" by (simp add: job_file_def)
  with Nil(5) have p: "pos f = length (content f)" by simp
  show ?case
    by (subst (1 2) governor_loop.simps)
       (simp add: getline_end [OF Nil(2,3) d] Let_def tellg_def Nil p)
next
  case (Cons l ls)
  then have d: "drop (pos f) (content f) = l @ newline # job_file ls"
    by (simp add: job_file_def)
  from Cons.prems(1) have l: "newline \<notin> set l" "\<not> blank l" by simp_all
  then have ne: "l \<noteq> []" by (auto simp: blank_def)
  define f' where "f' = f\<lparr>pos := pos f + length l + 1\<rparr>"
  have g: "getline f = (f', l)" unfolding f'_def by (rule getline_line [OF Cons.prems(2,3) d l(1)])
  have d': "drop (pos f') (content f') = job_file ls"
  proof -
    have "drop (pos f + length l + 1) (content f) = drop (length l + 1) (drop (pos f) (content f))"
      by (simp add: add.commute add.left_commute)
    then show ?thesis by (simp add: f'_def d)
  qed
  have good: "\<not> eofbit f'" "\<not> failbit f'" using Cons.prems(2,3) by (simp_all add: f'_def)
  have rest: "\<forall>l \<in> set ls. newline \<notin> set l \<and> \<not> blank l" using Cons.prems(1) by simp
  have "length (drop (pos f) (content f)) = length l + 1 + length (job_file ls)"
    by (simp add: d)
  then have le: "pos f' \<le> length (content f')" by (simp add: f'_def)
  note IH = Cons.IH [OF rest good d' le]
  have c: "content f' = content f" by (simp add: f'_def)
  show ?case
    apply (subst (1 2) governor_loop.simps)
    apply (simp add: g Let_def good l ne IH c)
    done
qed

lemma governor_one_more_than_lines:
  assumes "\<forall>l \<in> set ls. newline \<notin> set l \<and> \<not> blank l"
  shows "\<exists>sent. governor random_int source u0 u2 world_size (Some (job_file ls)) =
            sent @ map (\<lambda>j. (j, \<lparr>random_seed = u0, seek_offset = - 1, ligand_nbr = u2\<rparr>)) [1..<world_size]
          \<and> length sent = length ls + 1
          \<and> seek_offset (snd (last sent)) = to_int (int (length (job_file ls)))"
proof -
  obtain sent f count where g: "governor_loop random_int source (open_file (Some (job_file ls))) 0 0 [] = (sent, f, count)"
    by (cases "governor_loop random_int source (open_file (Some (job_file ls))) 0 0 []") auto
  have "length (fst (governor_loop random_int source (open_file (Some (job_file ls))) 0 0 [])) = length ls + 1
    \<and> seek_offset (snd (last (fst (governor_loop random_int source (open_file (Some (job_file ls))) 0 0 []))))
        = to_int (int (length (content (open_file (Some (job_file ls))))))"
    using governor_loop_lines [OF assms, of "open_file (Some (job_file ls))" random_int source 0 0 "[]"]
    by (simp add: open_file_def)
  with g have "length sent = length ls + 1"
    "seek_offset (snd (last sent)) = to_int (int (length (job_file ls)))"
    by (simp_all add: open_file_def)
  with g show ?thesis by (simp add: governor_def)
qed

text \<open>
  A job file that cannot be opened: \<open>tellg\<close> gives \<open>-1\<close> on the failed stream, so the one
  message of the loop carries the offset of the end signal.
\<close>

lemma governor_unopened_file:
  "governor random_int source u0 u2 world_size None =
     (source 0, \<lparr>random_seed = random_int 1, seek_offset = - 1, ligand_nbr = 0\<rparr>)
     # map (\<lambda>j. (j, \<lparr>random_seed = u0, seek_offset = - 1, ligand_nbr = u2\<rparr>)) [1..<world_size]"
  by (simp add: governor_def governor_loop.simps open_file_def tellg_def to_int_def getline_def Let_def)

text \<open>
  C5. A job file with one ligand line, ended by a newline, and one worker (two ranks). The
  governor sends two assignments and then the end signal: after the line is read the
  stream is still good, so the loop runs once more and sends the offset of the end of the
  file before \<open>getline\<close> finds nothing there. The worker docks the ligand \<open>a\<close>, then reads
  an empty path at the second offset, then leaves its loop. The claim counts one
  assignment for this file.
\<close>

theorem governor_assigns_end_of_file:
  "governor example_random_int example_source 0 0 2 (Some (job_file [''a''])) =
     [(1, \<lparr>random_seed = 8, seek_offset = 0, ligand_nbr = 0\<rparr>),
      (1, \<lparr>random_seed = 9, seek_offset = 2, ligand_nbr = 1\<rparr>),
      (1, \<lparr>random_seed = 0, seek_offset = - 1, ligand_nbr = 0\<rparr>)]
   \<and> worker_loop (open_file (Some (job_file [''a''])))
        (map snd (governor example_random_int example_source 0 0 2 (Some (job_file [''a''])))) [] =
     ([''a'', []], True)"
  by code_simp

end
